theory Spec2Isabelle
  imports Complex_Main "HOL-Library.Log_Nat" "HOL-Library.List_Lexorder" "HOL-Library.Multiset"
begin

section \<open>Python values used by app.py\<close>

subsection \<open>Text\<close>

text \<open>
  A Python \<^verbatim>\<open>str\<close> is a sequence of Unicode code points; it is modelled as the list
  of their numbers.  \<open>ascii\<close> turns an ASCII literal into such a list.
\<close>

type_synonym pystr = "nat list"

definition ascii :: "string \<Rightarrow> pystr" where
  "ascii s = map of_char s"

subsection \<open>Exceptions\<close>

datatype py_error = OverflowError | ZeroDivisionError | KeyError pystr | UnicodeEncodeError

subsection \<open>Binary64 floating point\<close>

text \<open>
  A Python \<^verbatim>\<open>float\<close> is an IEEE 754 binary64 value.  A finite value is carried as the
  rational number it denotes; \<open>Finite 0\<close> is \<^verbatim>\<open>0.0\<close> and \<open>NegZero\<close> is \<^verbatim>\<open>-0.0\<close>.
  Every arithmetic operation computes the exact rational result and rounds it to the
  nearest representable value, ties to the even significand.
\<close>

datatype float64 = Finite rat | NegZero | PInf | NInf | NaN

definition pow2 :: "int \<Rightarrow> rat" where
  "pow2 k = 2 powi k"

text \<open>\<open>ilog2 r\<close> is the binary exponent of a positive rational: \<open>2^e \<le> r < 2^(e+1)\<close>.\<close>

definition ilog2 :: "rat \<Rightarrow> int" where
  "ilog2 r = (if 1 \<le> r then bitlen \<lfloor>r\<rfloor> - 1 else - bitlen (\<lceil>1 / r\<rceil> - 1))"

definition round_half_even :: "rat \<Rightarrow> int" where
  "round_half_even x =
     (let f = \<lfloor>x\<rfloor>; d = x - of_int f
      in if d < 1 / 2 then f else if 1 / 2 < d then f + 1 else if even f then f else f + 1)"

text \<open>
  Rounding of a positive magnitude to 53 significant bits, with the exponent bounded
  below by -1022 (subnormal numbers share the spacing \<open>2^-1074\<close>) and not bounded above.
\<close>

definition round_mag :: "rat \<Rightarrow> rat" where
  "round_mag r =
     (let e = max (ilog2 r) (- 1022); ulp = pow2 (e - 52)
      in of_int (round_half_even (r / ulp)) * ulp)"

text \<open>
  Rounding of an exact nonzero result: a magnitude that rounds to \<open>2^1024\<close> or more
  overflows to an infinity, a negative result that rounds to zero is \<^verbatim>\<open>-0.0\<close>.
\<close>

definition rnd :: "rat \<Rightarrow> float64" where
  "rnd r =
     (if r = 0 then Finite 0
      else let m = round_mag \<bar>r\<bar>
           in if pow2 1024 \<le> m then (if r < 0 then NInf else PInf)
              else if r < 0 then (if m = 0 then NegZero else Finite (- m))
              else Finite m)"

fun fval :: "float64 \<Rightarrow> rat" where
  "fval (Finite r) = r"
| "fval _ = 0"

fun is_inf :: "float64 \<Rightarrow> bool" where
  "is_inf PInf = True"
| "is_inf NInf = True"
| "is_inf _ = False"

fun sign_bit :: "float64 \<Rightarrow> bool" where
  "sign_bit (Finite r) = (r < 0)"
| "sign_bit NegZero = True"
| "sign_bit NInf = True"
| "sign_bit _ = False"

fun fneg :: "float64 \<Rightarrow> float64" where
  "fneg (Finite r) = (if r = 0 then NegZero else Finite (- r))"
| "fneg NegZero = Finite 0"
| "fneg PInf = NInf"
| "fneg NInf = PInf"
| "fneg NaN = NaN"

definition fadd :: "float64 \<Rightarrow> float64 \<Rightarrow> float64" where
  "fadd x y =
     (if x = NaN \<or> y = NaN then NaN
      else if is_inf x then (if is_inf y \<and> x \<noteq> y then NaN else x)
      else if is_inf y then y
      else let s = fval x + fval y
           in if s = 0 then (if x = NegZero \<and> y = NegZero then NegZero else Finite 0)
              else rnd s)"

definition fsub :: "float64 \<Rightarrow> float64 \<Rightarrow> float64" where
  "fsub x y = fadd x (fneg y)"

definition fmul :: "float64 \<Rightarrow> float64 \<Rightarrow> float64" where
  "fmul x y =
     (if x = NaN \<or> y = NaN then NaN
      else if is_inf x \<or> is_inf y then
        (if (\<not> is_inf x \<and> fval x = 0) \<or> (\<not> is_inf y \<and> fval y = 0) then NaN
         else if sign_bit x \<noteq> sign_bit y then NInf else PInf)
      else let p = fval x * fval y
           in if p = 0 then (if sign_bit x \<noteq> sign_bit y then NegZero else Finite 0)
              else rnd p)"

text \<open>Python's \<^verbatim>\<open><\<close> on floats: false as soon as an operand is a NaN.\<close>

fun flt :: "float64 \<Rightarrow> float64 \<Rightarrow> bool" where
  "flt NaN _ = False"
| "flt _ NaN = False"
| "flt PInf _ = False"
| "flt _ NInf = False"
| "flt NInf _ = True"
| "flt _ PInf = True"
| "flt x y = (fval x < fval y)"

definition fle :: "float64 \<Rightarrow> float64 \<Rightarrow> bool" where
  "fle x y = (x \<noteq> NaN \<and> y \<noteq> NaN \<and> \<not> flt y x)"

text \<open>
  \<^verbatim>\<open>max(a, b)\<close> and \<^verbatim>\<open>min(a, b)\<close> keep the first argument unless the second one is
  strictly larger (smaller).
\<close>

definition py_max :: "float64 \<Rightarrow> float64 \<Rightarrow> float64" where
  "py_max a b = (if flt a b then b else a)"

definition py_min :: "float64 \<Rightarrow> float64 \<Rightarrow> float64" where
  "py_min a b = (if flt b a then b else a)"

text \<open>A decimal literal of the source denotes the double nearest to it.\<close>

definition float_lit :: "rat \<Rightarrow> float64" where
  "float_lit r = rnd r"

text \<open>
  \<^verbatim>\<open>a / b\<close> on two \<^verbatim>\<open>int\<close>s: the correctly rounded quotient; it raises when the divisor
  is zero and when the quotient is too large for a float.
\<close>

definition int_truediv :: "int \<Rightarrow> int \<Rightarrow> py_error + float64" where
  "int_truediv a b =
     (if b = 0 then Inl ZeroDivisionError
      else if a = 0 then Inr (if b < 0 then NegZero else Finite 0)
      else let q = rnd (of_int a / of_int b)
           in if is_inf q then Inl OverflowError else Inr q)"

text \<open>
  \<^verbatim>\<open>round(x, ndigits)\<close> on a float with \<open>0 \<le> ndigits\<close>: the value is rounded, ties to
  even, to \<open>ndigits\<close> decimal places as an exact decimal, which is then read back as a
  double.  Infinities and NaN are returned as they are, and so is \<open>x\<close> when
  \<open>ndigits\<close> exceeds 323.
\<close>

definition py_round :: "float64 \<Rightarrow> nat \<Rightarrow> py_error + float64" where
  "py_round x ndigits =
     (case x of
        Finite r \<Rightarrow>
          if 323 < ndigits then Inr x
          else let d = of_int (round_half_even (r * 10 ^ ndigits)) / 10 ^ ndigits
               in if d = 0 then Inr (if r < 0 then NegZero else Finite 0)
                  else let y = rnd d in if is_inf y then Inl OverflowError else Inr y
      | _ \<Rightarrow> Inr x)"

section \<open>The catalog\<close>

record ProofSystem =
  key :: pystr
  name :: pystr
  family :: pystr
  description :: pystr
  proving_complexity :: float64
  verification_cost :: float64
  privacy_strength :: float64
  soundness_guarantee :: float64

definition aztec :: ProofSystem where
  "aztec = \<lparr>
     key = ascii ''aztec'',
     name = ascii ''Aztec Noir-style ZK System'',
     family = ascii ''ZK-SNARK privacy model'',
     description = ascii ''A zk system enabling encrypted transactions and private state.'',
     proving_complexity = float_lit (78 / 10),
     verification_cost = float_lit (21 / 10),
     privacy_strength = float_lit (93 / 10),
     soundness_guarantee = float_lit (84 / 10) \<rparr>"

definition zama :: ProofSystem where
  "zama = \<lparr>
     key = ascii ''zama'',
     name = ascii ''Zama FHE Cryptosystem'',
     family = ascii ''Fully Homomorphic Encryption'',
     description = ascii ''FHE compute model with encrypted inputs, outputs, and logic.'',
     proving_complexity = float_lit (92 / 10),
     verification_cost = float_lit (78 / 10),
     privacy_strength = float_lit (87 / 10),
     soundness_guarantee = float_lit (91 / 10) \<rparr>"

definition soundness :: ProofSystem where
  "soundness = \<lparr>
     key = ascii ''soundness'',
     name = ascii ''Formal Soundness Verification Model'',
     family = ascii ''Proof-oriented protocol engineering'',
     description =
       ascii ''A system built around rigorous soundness proofs and verifiable execution.'',
     proving_complexity = float_lit (61 / 10),
     verification_cost = float_lit (32 / 10),
     privacy_strength = float_lit (64 / 10),
     soundness_guarantee = float_lit 10 \<rparr>"

text \<open>The dictionary \<^verbatim>\<open>SYSTEMS\<close>, in insertion order.\<close>

definition SYSTEMS :: "(pystr \<times> ProofSystem) list" where
  "SYSTEMS = [(ascii ''aztec'', aztec), (ascii ''zama'', zama), (ascii ''soundness'', soundness)]"

text \<open>\<^verbatim>\<open>SYSTEMS[k]\<close>\<close>

definition SYSTEMS_getitem :: "pystr \<Rightarrow> py_error + ProofSystem" where
  "SYSTEMS_getitem k = (case map_of SYSTEMS k of None \<Rightarrow> Inl (KeyError k) | Some s \<Rightarrow> Inr s)"

section \<open>The scorer\<close>

text \<open>Line 68: \<^verbatim>\<open>min(1.0, max(0.35, 1 - (tx_rate / 20000)))\<close>.\<close>

definition throughput_factor :: "int \<Rightarrow> py_error + float64" where
  "throughput_factor tx_rate =
     (case int_truediv tx_rate 20000 of
        Inl e \<Rightarrow> Inl e
      | Inr q \<Rightarrow> Inr (py_min (float_lit 1) (py_max (float_lit (35 / 100)) (fsub (Finite 1) q))))"

definition compute_quality_index :: "ProofSystem \<Rightarrow> int \<Rightarrow> py_error + float64" where
  "compute_quality_index system tx_rate =
     (let benefit = fadd (fmul (float_lit (42 / 100)) (privacy_strength system))
                         (fmul (float_lit (43 / 100)) (soundness_guarantee system));
          penalty = fadd (fmul (float_lit (10 / 100)) (proving_complexity system))
                         (fmul (float_lit (5 / 100)) (verification_cost system))
      in case throughput_factor tx_rate of
           Inl e \<Rightarrow> Inl e
         | Inr tf \<Rightarrow> py_round (fmul (fsub benefit penalty) tf) 4)"

section \<open>Dictionaries, text conversion and JSON\<close>

text \<open>
  The summary is a \<^verbatim>\<open>Dict[str, Any]\<close> whose values are strings, integers and floats.
  A dictionary keeps its keys in insertion order and is modelled as an association list.
\<close>

datatype pyval = PStr pystr | PInt int | PFloat float64

type_synonym pydict = "(pystr \<times> pyval) list"

text \<open>\<^verbatim>\<open>d[k] = v\<close>: an existing key keeps its position, a new key is appended.\<close>

definition dict_setitem :: "pydict \<Rightarrow> pystr \<Rightarrow> pyval \<Rightarrow> pydict" where
  "dict_setitem d k v =
     (if k \<in> set (map fst d) then map (\<lambda>(k', v'). (k', if k' = k then v else v')) d
      else d @ [(k, v)])"

text \<open>\<^verbatim>\<open>d[k]\<close>\<close>

definition dict_getitem :: "pydict \<Rightarrow> pystr \<Rightarrow> py_error + pyval" where
  "dict_getitem d k = (case map_of d k of None \<Rightarrow> Inl (KeyError k) | Some v \<Rightarrow> Inr v)"

text \<open>\<^verbatim>\<open>dataclasses.asdict\<close>: the fields in the order of their declaration.\<close>

definition asdict :: "ProofSystem \<Rightarrow> pydict" where
  "asdict s =
     [(ascii ''key'', PStr (key s)),
      (ascii ''name'', PStr (name s)),
      (ascii ''family'', PStr (family s)),
      (ascii ''description'', PStr (description s)),
      (ascii ''proving_complexity'', PFloat (proving_complexity s)),
      (ascii ''verification_cost'', PFloat (verification_cost s)),
      (ascii ''privacy_strength'', PFloat (privacy_strength s)),
      (ascii ''soundness_guarantee'', PFloat (soundness_guarantee s))]"

text \<open>
  Two functions of the standard library are parameters of the model: \<^verbatim>\<open>float.__repr__\<close>
  (the shortest decimal text that reads back as the same double) and
  \<^verbatim>\<open>hashlib.sha256(b).hexdigest()\<close> on a byte string.  Both return ASCII text, which
  their result type records.
\<close>

record pylib =
  float_repr :: "float64 \<Rightarrow> String.literal"
  sha256_hexdigest :: "nat list \<Rightarrow> String.literal"

definition lit_text :: "String.literal \<Rightarrow> pystr" where
  "lit_text l = map of_char (String.explode l)"

text \<open>
  \<^verbatim>\<open>str(n)\<close> for an \<^verbatim>\<open>int\<close>: decimal digits, with a minus sign for a negative number.
  CPython refuses to convert integers of more than 4300 digits; the program never
  reaches the conversion with such a number, since \<^verbatim>\<open>compute_quality_index\<close> has raised
  before for a transaction rate of more than 313 digits and the timestamp is the integer
  part of a float.
\<close>

fun str_nat :: "nat \<Rightarrow> pystr" where
  "str_nat n = (if n < 10 then [48 + n] else str_nat (n div 10) @ [48 + n mod 10])"

definition str_int :: "int \<Rightarrow> pystr" where
  "str_int i = (if i < 0 then 45 # str_nat (nat (- i)) else str_nat (nat i))"

text \<open>What an f-string inserts for \<^verbatim>\<open>{v}\<close>: \<^verbatim>\<open>str(v)\<close>.\<close>

definition py_str :: "pylib \<Rightarrow> pyval \<Rightarrow> pystr" where
  "py_str L v =
     (case v of PStr s \<Rightarrow> s | PInt n \<Rightarrow> str_int n | PFloat x \<Rightarrow> lit_text (float_repr L x))"

text \<open>\<^verbatim>\<open>sep.join(parts)\<close>\<close>

fun join :: "pystr \<Rightarrow> pystr list \<Rightarrow> pystr" where
  "join sep [] = []"
| "join sep [x] = x"
| "join sep (x # y # ys) = x @ sep @ join sep (y # ys)"

text \<open>
  The string encoder of \<^verbatim>\<open>json\<close> with \<^verbatim>\<open>ensure_ascii=True\<close>: the quote and the backslash
  are escaped, the control characters \<^verbatim>\<open>\b \f \n \r \t\<close> get their short escapes, every
  other character outside the range from the space to the tilde becomes \<^verbatim>\<open>\uXXXX\<close>, as a
  surrogate pair beyond the basic plane.
\<close>

definition hex_digit :: "nat \<Rightarrow> nat" where
  "hex_digit d = (if d < 10 then 48 + d else 87 + d)"

definition hex4 :: "nat \<Rightarrow> pystr" where
  "hex4 n = [hex_digit (n div 4096 mod 16), hex_digit (n div 256 mod 16),
             hex_digit (n div 16 mod 16), hex_digit (n mod 16)]"

definition json_escape_char :: "nat \<Rightarrow> pystr" where
  "json_escape_char c =
     (if c = 34 then [92, 34]
      else if c = 92 then [92, 92]
      else if c = 8 then [92, 98]
      else if c = 12 then [92, 102]
      else if c = 10 then [92, 110]
      else if c = 13 then [92, 114]
      else if c = 9 then [92, 116]
      else if 32 \<le> c \<and> c \<le> 126 then [c]
      else if c < 65536 then [92, 117] @ hex4 c
      else let n = c - 65536
           in [92, 117] @ hex4 (55296 + n div 1024 mod 1024)
              @ [92, 117] @ hex4 (56320 + n mod 1024))"

definition json_string :: "pystr \<Rightarrow> pystr" where
  "json_string s = [34] @ concat (map json_escape_char s) @ [34]"

definition json_float :: "pylib \<Rightarrow> float64 \<Rightarrow> pystr" where
  "json_float L x =
     (case x of
        NaN \<Rightarrow> ascii ''NaN''
      | PInf \<Rightarrow> ascii ''Infinity''
      | NInf \<Rightarrow> ascii ''-Infinity''
      | _ \<Rightarrow> lit_text (float_repr L x))"

definition json_value :: "pylib \<Rightarrow> pyval \<Rightarrow> pystr" where
  "json_value L v =
     (case v of PStr s \<Rightarrow> json_string s | PInt n \<Rightarrow> str_int n | PFloat x \<Rightarrow> json_float L x)"

definition json_item :: "pylib \<Rightarrow> pystr \<times> pyval \<Rightarrow> pystr" where
  "json_item L kv = json_string (fst kv) @ ascii '': '' @ json_value L (snd kv)"

text \<open>
  \<^verbatim>\<open>json.dumps(d, indent=indent, sort_keys=sort_keys)\<close> for a dictionary with string keys
  and values as above.  Without \<^verbatim>\<open>indent\<close> the items are separated by a comma and a space;
  with \<^verbatim>\<open>indent=n\<close> every item starts a new line indented by \<open>n\<close> spaces and the
  closing brace is on a line of its own.
\<close>

definition json_dumps :: "pylib \<Rightarrow> nat option \<Rightarrow> bool \<Rightarrow> pydict \<Rightarrow> pystr" where
  "json_dumps L indent sort_keys d =
     (let items = map (json_item L) (if sort_keys then sort_key fst d else d)
      in if items = [] then ascii ''{}''
         else case indent of
                None \<Rightarrow> ascii ''{'' @ join (ascii '', '') items @ ascii ''}''
              | Some n \<Rightarrow>
                  ascii ''{'' @ [10] @ replicate n 32
                  @ join ([44, 10] @ replicate n 32) items @ [10] @ ascii ''}'')"

text \<open>\<^verbatim>\<open>s.encode()\<close>: UTF-8; a lone surrogate cannot be encoded.\<close>

definition utf8_char :: "nat \<Rightarrow> py_error + nat list" where
  "utf8_char c =
     (if c < 128 then Inr [c]
      else if c < 2048 then Inr [192 + c div 64, 128 + c mod 64]
      else if 55296 \<le> c \<and> c < 57344 then Inl UnicodeEncodeError
      else if c < 65536 then Inr [224 + c div 4096, 128 + c div 64 mod 64, 128 + c mod 64]
      else Inr [240 + c div 262144, 128 + c div 4096 mod 64, 128 + c div 64 mod 64,
                128 + c mod 64])"

fun str_encode :: "pystr \<Rightarrow> py_error + nat list" where
  "str_encode [] = Inr []"
| "str_encode (c # cs) =
     (case utf8_char c of
        Inl e \<Rightarrow> Inl e
      | Inr b \<Rightarrow> (case str_encode cs of Inl e \<Rightarrow> Inl e | Inr bs \<Rightarrow> Inr (b @ bs)))"

section \<open>The summarizer\<close>

definition compute_hash :: "pylib \<Rightarrow> pydict \<Rightarrow> py_error + pystr" where
  "compute_hash L metadata =
     (case str_encode (json_dumps L None True metadata) of
        Inl e \<Rightarrow> Inl e
      | Inr enc \<Rightarrow> Inr (lit_text (sha256_hexdigest L enc)))"

text \<open>
  \<open>now\<close> is the value of \<^verbatim>\<open>int(time.time())\<close>, the only input \<^verbatim>\<open>build_summary\<close> reads
  besides its arguments.
\<close>

definition build_summary :: "pylib \<Rightarrow> ProofSystem \<Rightarrow> int \<Rightarrow> int \<Rightarrow> py_error + pydict" where
  "build_summary L system tx_rate now =
     (let base = dict_setitem (asdict system) (ascii ''txRate'') (PInt tx_rate)
      in case compute_quality_index system tx_rate of
           Inl e \<Rightarrow> Inl e
         | Inr qi \<Rightarrow>
             let base = dict_setitem base (ascii ''qualityIndex'') (PFloat qi);
                 base = dict_setitem base (ascii ''timestamp'') (PInt now)
             in case compute_hash L base of
                  Inl e \<Rightarrow> Inl e
                | Inr h \<Rightarrow> Inr (dict_setitem base (ascii ''hash'') (PStr h)))"

section \<open>The presenter and the driver\<close>

text \<open>
  Standard output is the list of the strings handed to \<^verbatim>\<open>print\<close>, one per call.  A run
  of \<^verbatim>\<open>print\<close> statements stops at the first one whose argument raises; the lines
  printed before it stay printed.
\<close>

fun run_prints :: "(py_error + pystr) list \<Rightarrow> pystr list \<times> py_error option" where
  "run_prints [] = ([], None)"
| "run_prints (Inl e # ps) = ([], Some e)"
| "run_prints (Inr line # ps) = (case run_prints ps of (out, r) \<Rightarrow> (line # out, r))"

text \<open>The f-string \<^verbatim>\<open>f"<label>{summary[k]}"\<close>.\<close>

definition labelled :: "pylib \<Rightarrow> pydict \<Rightarrow> pystr \<Rightarrow> pystr \<Rightarrow> py_error + pystr" where
  "labelled L summary label k =
     (case dict_getitem summary k of Inl e \<Rightarrow> Inl e | Inr v \<Rightarrow> Inr (label @ py_str L v))"

definition print_human :: "pylib \<Rightarrow> pydict \<Rightarrow> pystr list \<times> py_error option" where
  "print_human L summary =
     run_prints
       [Inr ([128272] @ ascii '' Cryptographic Architecture Model''),
        (case dict_getitem summary (ascii ''name'') of
           Inl e \<Rightarrow> Inl e
         | Inr n \<Rightarrow>
             (case dict_getitem summary (ascii ''key'') of
                Inl e \<Rightarrow> Inl e
              | Inr k \<Rightarrow>
                  Inr (ascii ''System: '' @ py_str L n @ ascii '' ('' @ py_str L k @ ascii '')''))),
        labelled L summary (ascii ''Family: '') (ascii ''family''),
        labelled L summary (ascii ''Description: '') (ascii ''description''),
        Inr [],
        labelled L summary (ascii ''Transactions/sec: '') (ascii ''txRate''),
        labelled L summary (ascii ''Privacy strength: '') (ascii ''privacy_strength''),
        labelled L summary (ascii ''Soundness guarantee: '') (ascii ''soundness_guarantee''),
        labelled L summary (ascii ''Proving complexity: '') (ascii ''proving_complexity''),
        labelled L summary (ascii ''Verification cost:  '') (ascii ''verification_cost''),
        Inr [],
        labelled L summary ([127937] @ ascii '' Quality Index: '') (ascii ''qualityIndex''),
        labelled L summary ([129516] @ ascii '' Metadata hash: '') (ascii ''hash'')]"

text \<open>
  The namespace returned by \<^verbatim>\<open>parse_args\<close>: the attributes \<^verbatim>\<open>tx_rate\<close>, \<^verbatim>\<open>system\<close> and
  \<^verbatim>\<open>json\<close>.
\<close>

record Namespace =
  args_tx_rate :: int
  args_system :: pystr
  args_json :: bool

text \<open>
  \<^verbatim>\<open>main\<close> after \<^verbatim>\<open>parse_args\<close> has returned: what is printed, and the exception that
  ends the run, if any.
\<close>

definition main :: "pylib \<Rightarrow> Namespace \<Rightarrow> int \<Rightarrow> pystr list \<times> py_error option" where
  "main L args now =
     (case SYSTEMS_getitem (args_system args) of
        Inl e \<Rightarrow> ([], Some e)
      | Inr system \<Rightarrow>
          (case build_summary L system (args_tx_rate args) now of
             Inl e \<Rightarrow> ([], Some e)
           | Inr data \<Rightarrow>
               if args_json args then ([json_dumps L (Some 2) True data], None)
               else print_human L data))"

section \<open>Auxiliary notions for the proofs\<close>

text \<open>
  None of the following is part of the program; they name quantities the proofs speak
  about: the exponent used by the rounding, the value of a float with the infinities
  placed at \<open>\<plusminus>2^1024\<close>, rounding as a function on rationals that saturates there,
  the bound on \<^verbatim>\<open>tx_rate\<close> below which \<^verbatim>\<open>tx_rate / 20000\<close> is a float, and the value of
  the throughput factor and of the quality index as rational functions; text made of
  ASCII characters only, and the summary before the hash is added.
\<close>

definition ascii_only :: "pystr \<Rightarrow> bool" where
  "ascii_only s = (\<forall>c \<in> set s. c < 128)"

definition summary_fields :: "ProofSystem \<Rightarrow> int \<Rightarrow> float64 \<Rightarrow> int \<Rightarrow> pydict" where
  "summary_fields s t qi now =
     [(ascii ''key'', PStr (key s)),
      (ascii ''name'', PStr (name s)),
      (ascii ''family'', PStr (family s)),
      (ascii ''description'', PStr (description s)),
      (ascii ''proving_complexity'', PFloat (proving_complexity s)),
      (ascii ''verification_cost'', PFloat (verification_cost s)),
      (ascii ''privacy_strength'', PFloat (privacy_strength s)),
      (ascii ''soundness_guarantee'', PFloat (soundness_guarantee s)),
      (ascii ''txRate'', PInt t),
      (ascii ''qualityIndex'', PFloat qi),
      (ascii ''timestamp'', PInt now)]"

definition fexp :: "rat \<Rightarrow> int" where
  "fexp r = max (ilog2 r) (- 1022)"

fun ext :: "float64 \<Rightarrow> rat" where
  "ext (Finite r) = r"
| "ext PInf = pow2 1024"
| "ext NInf = - pow2 1024"
| "ext _ = 0"

definition rq :: "rat \<Rightarrow> rat" where
  "rq r = (if r = 0 then 0
           else if r < 0 then - min (round_mag (- r)) (pow2 1024)
           else min (round_mag r) (pow2 1024))"

definition ordinary :: "float64 \<Rightarrow> bool" where
  "ordinary x = (x \<noteq> NaN \<and> \<bar>fval x\<bar> < pow2 1024)"

definition tx_rate_bound :: int where
  "tx_rate_bound = 20000 * (2 ^ 1024 - 2 ^ 970)"

definition c035 :: rat where
  "c035 = 3152519739159347 / 9007199254740992"

definition tfv :: "int \<Rightarrow> rat" where
  "tfv t = min 1 (max c035 (rq (1 - rq (of_int t / 20000))))"

definition score_base :: "ProofSystem \<Rightarrow> float64" where
  "score_base system =
     fsub (fadd (fmul (float_lit (42 / 100)) (privacy_strength system))
                (fmul (float_lit (43 / 100)) (soundness_guarantee system)))
          (fadd (fmul (float_lit (10 / 100)) (proving_complexity system))
                (fmul (float_lit (5 / 100)) (verification_cost system)))"

definition qv :: "rat \<Rightarrow> int \<Rightarrow> rat" where
  "qv d t = rq (of_int (round_half_even (rq (d * tfv t) * 10 ^ 4)) / 10 ^ 4)"

section \<open>Facts about the rounding\<close>

lemma pow2_pos: "0 < pow2 k"
  by (simp add: pow2_def)

lemma pow2_add: "pow2 (a + b) = pow2 a * pow2 b"
  by (simp add: pow2_def power_int_add)

lemma pow2_mono: "a \<le> b \<Longrightarrow> pow2 a \<le> pow2 b"
  by (simp add: pow2_def power_int_increasing)

lemma pow2_strict_mono: "a < b \<Longrightarrow> pow2 a < pow2 b"
  by (simp add: pow2_def power_int_strict_increasing)

lemma pow2_nat: "0 \<le> k \<Longrightarrow> pow2 k = 2 ^ nat k"
  by (simp add: pow2_def power_int_def)

lemma pow2_neg: "k \<le> 0 \<Longrightarrow> pow2 k = 1 / 2 ^ nat (- k)"
  by (cases "k = 0") (simp_all add: pow2_def power_int_def inverse_eq_divide power_one_over)

lemma ilog2_ge1:
  assumes "1 \<le> r"
  shows "pow2 (ilog2 r) \<le> r \<and> r < pow2 (ilog2 r + 1)"
proof -
  define n where "n = \<lfloor>r\<rfloor>"
  have n1: "1 \<le> n" using assms by (simp add: n_def le_floor_iff)
  then have npos: "0 < n" by simp
  have b: "2 ^ nat (bitlen n - 1) \<le> n" "n < 2 ^ nat (bitlen n)"
    using bitlen_bounds [OF npos] by simp_all
  have bl: "1 \<le> bitlen n" using npos by (simp add: bitlen_alt_def)
  have e: "ilog2 r = bitlen n - 1" using assms by (simp add: ilog2_def n_def)
  have "pow2 (ilog2 r) = of_int (2 ^ nat (bitlen n - 1))"
    using bl by (simp add: e pow2_nat)
  also have "\<dots> \<le> of_int n" using b(1) by (simp only: of_int_le_iff)
  also have "\<dots> \<le> r" by (simp add: n_def)
  finally have lo: "pow2 (ilog2 r) \<le> r" .
  have "n + 1 \<le> 2 ^ nat (bitlen n)" using b(2) by simp
  then have "(of_int (n + 1) :: rat) \<le> of_int (2 ^ nat (bitlen n))"
    by (simp only: of_int_le_iff)
  moreover have "r < of_int (n + 1)" unfolding n_def by linarith
  ultimately have "r < of_int (2 ^ nat (bitlen n))" by simp
  moreover have "pow2 (ilog2 r + 1) = of_int (2 ^ nat (bitlen n))"
    using bl by (simp add: e pow2_nat)
  ultimately show ?thesis using lo by simp
qed

lemma ilog2_lt1:
  assumes "0 < r" "r < 1"
  shows "pow2 (ilog2 r) \<le> r \<and> r < pow2 (ilog2 r + 1)"
proof -
  define c where "c = \<lceil>1 / r\<rceil>"
  define k where "k = bitlen (c - 1)"
  have inv: "1 < 1 / r" using assms by simp
  have c2: "2 \<le> c" using inv by (simp add: c_def le_ceiling_iff) 
  then have cpos: "0 < c - 1" by simp
  have b: "2 ^ nat (k - 1) \<le> c - 1" "c - 1 < 2 ^ nat k"
    using bitlen_bounds [OF cpos] by (simp_all add: k_def)
  have k1: "1 \<le> k" using cpos by (simp add: k_def bitlen_alt_def)
  have e: "ilog2 r = - k" using assms by (simp add: ilog2_def k_def c_def)
  have c_le: "(of_int c :: rat) \<le> 2 ^ nat k"
  proof -
    have "c \<le> 2 ^ nat k" using b(2) by simp
    then have "(of_int c :: rat) \<le> of_int (2 ^ nat k)" by (simp only: of_int_le_iff)
    then show ?thesis by simp
  qed
  have "1 / r \<le> of_int c" by (simp add: c_def)
  with c_le have up: "1 / r \<le> 2 ^ nat k" by linarith
  have c_ge: "(2 ^ nat (k - 1) :: rat) \<le> of_int (c - 1)"
  proof -
    have "(of_int (2 ^ nat (k - 1)) :: rat) \<le> of_int (c - 1)"
      using b(1) by (simp only: of_int_le_iff)
    then show ?thesis by simp
  qed
  have "of_int (c - 1) < 1 / r" unfolding c_def by linarith
  with c_ge have lo: "2 ^ nat (k - 1) < 1 / r" by linarith
  have "pow2 (ilog2 r) = 1 / 2 ^ nat k" using k1 by (simp add: e pow2_neg)
  moreover have "1 / 2 ^ nat k \<le> r"
    using up assms(1) by (simp add: field_simps)
  moreover have "pow2 (ilog2 r + 1) = 1 / 2 ^ nat (k - 1)"
    using k1 by (simp add: e pow2_neg)
  moreover have "r < 1 / 2 ^ nat (k - 1)"
    using lo assms(1) by (simp add: field_simps)
  ultimately show ?thesis by simp
qed

lemma ilog2_bounds: "0 < r \<Longrightarrow> pow2 (ilog2 r) \<le> r \<and> r < pow2 (ilog2 r + 1)"
  using ilog2_ge1 [of r] ilog2_lt1 [of r] by (cases "1 \<le> r") auto

lemma ilog2_unique:
  assumes "0 < r" "pow2 e \<le> r" "r < pow2 (e + 1)"
  shows "ilog2 r = e"
proof (rule ccontr)
  assume ne: "ilog2 r \<noteq> e"
  have b: "pow2 (ilog2 r) \<le> r" "r < pow2 (ilog2 r + 1)"
    using ilog2_bounds [OF assms(1)] by simp_all
  show False
  proof (cases "ilog2 r < e")
    case True
    then have "pow2 (ilog2 r + 1) \<le> pow2 e" by (intro pow2_mono) simp
    with b(2) assms(2) show False by simp
  next
    case False
    with ne have "e + 1 \<le> ilog2 r" by simp
    then have "pow2 (e + 1) \<le> pow2 (ilog2 r)" by (rule pow2_mono)
    with b(1) assms(3) show False by simp
  qed
qed

lemma ilog2_mono:
  assumes "0 < a" "a \<le> b"
  shows "ilog2 a \<le> ilog2 b"
proof (rule ccontr)
  assume "\<not> ilog2 a \<le> ilog2 b"
  then have "ilog2 b + 1 \<le> ilog2 a" by simp
  then have "pow2 (ilog2 b + 1) \<le> pow2 (ilog2 a)" by (rule pow2_mono)
  moreover have "pow2 (ilog2 a) \<le> a" using ilog2_bounds [OF assms(1)] by simp
  moreover have "b < pow2 (ilog2 b + 1)" using ilog2_bounds [of b] assms by simp
  ultimately show False using assms(2) by simp
qed

lemma rhe_cases:
  "round_half_even x = \<lfloor>x\<rfloor> \<or> round_half_even x = \<lfloor>x\<rfloor> + 1"
  by (simp add: round_half_even_def Let_def)

lemma rhe_upper: "of_int (round_half_even x) \<le> x + 1 / 2"
  unfolding round_half_even_def Let_def by (simp; linarith)

lemma rhe_lower: "x - 1 / 2 \<le> of_int (round_half_even x)"
  unfolding round_half_even_def Let_def by (simp; linarith)

lemma rhe_of_int: "round_half_even (of_int n) = n"
  by (simp add: round_half_even_def)

lemma rhe_mono:
  assumes "x \<le> y"
  shows "round_half_even x \<le> round_half_even y"
proof (cases "\<lfloor>x\<rfloor> = \<lfloor>y\<rfloor>")
  case True
  with assms show ?thesis
    unfolding round_half_even_def Let_def by (simp; linarith)
next
  case False
  moreover have "\<lfloor>x\<rfloor> \<le> \<lfloor>y\<rfloor>" using assms by (rule floor_mono)
  ultimately have "\<lfloor>x\<rfloor> + 1 \<le> \<lfloor>y\<rfloor>" by simp
  moreover have "round_half_even x \<le> \<lfloor>x\<rfloor> + 1" using rhe_cases [of x] by auto
  moreover have "\<lfloor>y\<rfloor> \<le> round_half_even y" using rhe_cases [of y] by auto
  ultimately show ?thesis by simp
qed

lemma rhe_le: "x \<le> of_int n \<Longrightarrow> round_half_even x \<le> n"
  using rhe_mono [of x "of_int n"] by (simp add: rhe_of_int)

lemma rhe_ge: "of_int n \<le> x \<Longrightarrow> n \<le> round_half_even x"
  using rhe_mono [of "of_int n" x] by (simp add: rhe_of_int)

lemma rhe_below_half:
  assumes "x < of_int n + 1 / 2"
  shows "round_half_even x \<le> n"
proof -
  have "(of_int (round_half_even x) :: rat) < of_int (n + 1)"
    using rhe_upper [of x] assms by simp
  then have "round_half_even x < n + 1" by (simp only: of_int_less_iff)
  then show ?thesis by simp
qed

lemma pow2_split: "pow2 e = pow2 (e - k) * pow2 k"
  using pow2_add [of "e - k" k] by simp

lemma pow2_52: "pow2 52 = of_int (2 ^ 52)"
  by (simp add: pow2_def)

lemma pow2_53: "pow2 53 = of_int (2 ^ 53)"
  by (simp add: pow2_def)

lemma round_mag_fexp:
  "round_mag r = of_int (round_half_even (r / pow2 (fexp r - 52))) * pow2 (fexp r - 52)"
  by (simp add: round_mag_def fexp_def Let_def)

lemma fexp_mono: "0 < a \<Longrightarrow> a \<le> b \<Longrightarrow> fexp a \<le> fexp b"
  using ilog2_mono [of a b] by (simp add: fexp_def)

lemma fexp_upper:
  assumes "0 < r"
  shows "r < pow2 (fexp r + 1)"
proof -
  have "r < pow2 (ilog2 r + 1)" using ilog2_bounds [OF assms] by simp
  also have "\<dots> \<le> pow2 (fexp r + 1)" by (rule pow2_mono) (simp add: fexp_def)
  finally show ?thesis .
qed

lemma round_mag_upper:
  assumes "0 < r"
  shows "round_mag r \<le> pow2 (fexp r + 1)"
proof -
  let ?u = "pow2 (fexp r - 52)"
  have u: "0 < ?u" by (rule pow2_pos)
  have s: "pow2 (fexp r + 1) = ?u * pow2 53"
    using pow2_split [of "fexp r + 1" 53] by (simp add: mult.commute)
  have "r < pow2 (fexp r + 1)" by (rule fexp_upper [OF assms])
  then have "r < pow2 53 * ?u" by (simp only: s mult.commute)
  then have "r / ?u < pow2 53" using u by (simp only: pos_divide_less_eq)
  then have "round_half_even (r / ?u) \<le> 2 ^ 53"
    by (intro rhe_le) (simp add: pow2_53)
  then have "(of_int (round_half_even (r / ?u)) :: rat) \<le> of_int (2 ^ 53)"
    by (simp only: of_int_le_iff)
  then have "of_int (round_half_even (r / ?u)) * ?u \<le> pow2 53 * ?u"
    using u by (simp add: pow2_53)
  then show ?thesis by (simp add: round_mag_fexp s mult.commute)
qed

lemma round_mag_lower:
  assumes "0 < r" "- 1022 \<le> ilog2 r"
  shows "pow2 (ilog2 r) \<le> round_mag r"
proof -
  have fe: "fexp r = ilog2 r" using assms(2) by (simp add: fexp_def)
  let ?u = "pow2 (ilog2 r - 52)"
  have u: "0 < ?u" by (rule pow2_pos)
  have s: "pow2 (ilog2 r) = ?u * pow2 52"
    using pow2_split [of "ilog2 r" 52] by simp
  have "pow2 (ilog2 r) \<le> r" using ilog2_bounds [OF assms(1)] by simp
  then have "pow2 52 * ?u \<le> r" by (simp only: s mult.commute)
  then have "pow2 52 \<le> r / ?u" using u by (simp only: pos_le_divide_eq)
  then have "2 ^ 52 \<le> round_half_even (r / ?u)"
    by (intro rhe_ge) (simp add: pow2_52)
  then have "(of_int (2 ^ 52) :: rat) \<le> of_int (round_half_even (r / ?u))"
    by (simp only: of_int_le_iff)
  then have "pow2 52 * ?u \<le> of_int (round_half_even (r / ?u)) * ?u"
    using u by (simp add: pow2_52)
  then show ?thesis by (simp add: round_mag_fexp fe s mult.commute)
qed

lemma round_mag_nonneg:
  assumes "0 < r"
  shows "0 \<le> round_mag r"
proof -
  have "0 \<le> r / pow2 (fexp r - 52)" using assms pow2_pos [of "fexp r - 52"] by simp
  then have "0 \<le> round_half_even (r / pow2 (fexp r - 52))"
    by (intro rhe_ge) simp
  then show ?thesis using pow2_pos [of "fexp r - 52"] by (simp add: round_mag_fexp)
qed

lemma round_mag_mono:
  assumes "0 < a" "a \<le> b"
  shows "round_mag a \<le> round_mag b"
proof (cases "fexp a = fexp b")
  case True
  have u: "0 < pow2 (fexp b - 52)" by (rule pow2_pos)
  have "a / pow2 (fexp b - 52) \<le> b / pow2 (fexp b - 52)"
    using assms(2) u by (simp add: divide_right_mono)
  then have "round_half_even (a / pow2 (fexp b - 52)) \<le> round_half_even (b / pow2 (fexp b - 52))"
    by (rule rhe_mono)
  then have "(of_int (round_half_even (a / pow2 (fexp b - 52))) :: rat)
      \<le> of_int (round_half_even (b / pow2 (fexp b - 52)))"
    by (simp only: of_int_le_iff)
  then show ?thesis using u by (simp add: round_mag_fexp True)
next
  case False
  have bpos: "0 < b" using assms by simp
  have lt: "fexp a < fexp b" using fexp_mono [OF assms] False by simp
  then have fb: "fexp b = ilog2 b" "- 1022 \<le> ilog2 b" by (auto simp: fexp_def)
  have "round_mag a \<le> pow2 (fexp a + 1)" by (rule round_mag_upper [OF assms(1)])
  also have "\<dots> \<le> pow2 (ilog2 b)" using lt fb(1) by (intro pow2_mono) simp
  also have "\<dots> \<le> round_mag b" by (rule round_mag_lower [OF bpos fb(2)])
  finally show ?thesis .
qed

lemma round_mag_unfold:
  assumes "0 < r" "pow2 e \<le> r" "r < pow2 (e + 1)" "- 1022 \<le> e"
  shows "round_mag r = of_int (round_half_even (r / pow2 (e - 52))) * pow2 (e - 52)"
proof -
  have "ilog2 r = e" by (rule ilog2_unique [OF assms(1-3)])
  with assms(4) have "fexp r = e" by (simp add: fexp_def)
  then show ?thesis by (simp add: round_mag_fexp)
qed

lemma round_mag_finite:
  assumes "0 < r" "pow2 e \<le> r" "r < pow2 (e + 1)" "- 1022 \<le> e" "e \<le> 1022"
  shows "round_mag r < pow2 1024"
proof -
  have "ilog2 r = e" by (rule ilog2_unique [OF assms(1-3)])
  with assms(4) have fe: "fexp r = e" by (simp add: fexp_def)
  have "round_mag r \<le> pow2 (e + 1)" using round_mag_upper [OF assms(1)] by (simp add: fe)
  also have "\<dots> < pow2 1024" using assms(5) by (intro pow2_strict_mono) simp
  finally show ?thesis .
qed

lemma rhe_eqI:
  assumes "\<bar>x - of_int m\<bar> < 1 / 2"
  shows "round_half_even x = m"
proof -
  have "\<bar>(of_int (round_half_even x) :: rat) - of_int m\<bar> < 1"
    using rhe_upper [of x] rhe_lower [of x] assms by linarith
  then have "\<bar>(of_int (round_half_even x - m) :: rat)\<bar> < of_int 1" by simp
  then have "\<bar>round_half_even x - m\<bar> < 1"
    by (simp only: of_int_abs [symmetric] of_int_less_iff)
  then show ?thesis by simp
qed

lemma rhe_tie_odd:
  assumes "x = of_int f + 1 / 2" "odd f"
  shows "round_half_even x = f + 1"
proof -
  have "\<lfloor>x\<rfloor> = f" unfolding assms(1) by linarith
  then show ?thesis using assms by (simp add: round_half_even_def Let_def)
qed

lemma rhe_eval:
  assumes "\<bar>x - of_int m\<bar> < 1 / 2 \<or> (\<bar>x - of_int m\<bar> = 1 / 2 \<and> even m)"
  shows "round_half_even x = m"
proof (cases "\<bar>x - of_int m\<bar> < 1 / 2")
  case True
  then show ?thesis by (rule rhe_eqI)
next
  case False
  with assms have t: "\<bar>x - of_int m\<bar> = 1 / 2" and ev: "even m" by simp_all
  show ?thesis
  proof (cases "of_int m \<le> x")
    case True
    with t have x: "x = of_int m + 1 / 2" by simp
    have "\<lfloor>x\<rfloor> = m" unfolding x by linarith
    then show ?thesis using x ev by (simp add: round_half_even_def Let_def)
  next
    case False
    with t have x: "x = of_int (m - 1) + 1 / 2" by simp
    then have "round_half_even x = (m - 1) + 1" using ev by (intro rhe_tie_odd) simp_all
    then show ?thesis by simp
  qed
qed

lemma rnd_pos_eq:
  assumes "0 < r" "pow2 e \<le> r" "r < pow2 (e + 1)" "- 1022 \<le> e" "e \<le> 1022"
    and "\<bar>r / pow2 (e - 52) - of_int m\<bar> < 1 / 2
         \<or> (\<bar>r / pow2 (e - 52) - of_int m\<bar> = 1 / 2 \<and> even m)"
    and "v = of_int m * pow2 (e - 52)"
  shows "rnd r = Finite v"
proof -
  have "round_mag r = v"
    using round_mag_unfold [OF assms(1-4)] rhe_eval [OF assms(6)] assms(7) by simp
  moreover have "round_mag r < pow2 1024" by (rule round_mag_finite [OF assms(1-5)])
  ultimately show ?thesis using assms(1) by (simp add: rnd_def Let_def)
qed

lemma fexp_le_1023:
  assumes "0 < r" "r < pow2 1024"
  shows "fexp r \<le> 1023"
proof (rule ccontr)
  assume "\<not> fexp r \<le> 1023"
  then have "1024 \<le> ilog2 r" by (simp add: fexp_def)
  then have "pow2 1024 \<le> pow2 (ilog2 r)" by (rule pow2_mono)
  also have "\<dots> \<le> r" using ilog2_bounds [OF assms(1)] by simp
  finally show False using assms(2) by simp
qed

lemma pow2_1024_split: "pow2 1024 = of_int (2 ^ 53) * pow2 971"
  using pow2_split [of 1024 971] by (simp add: pow2_53 mult.commute)

lemma pow2_1023_le: "pow2 1023 \<le> pow2 1024 - pow2 971"
proof -
  have "pow2 1024 = 2 * pow2 1023" using pow2_add [of 1 1023] by (simp add: pow2_def)
  moreover have "pow2 971 \<le> pow2 1023" by (rule pow2_mono) simp
  ultimately show ?thesis by simp
qed

lemma round_mag_below_threshold:
  assumes "0 < r" "r < pow2 1024 - pow2 970"
  shows "round_mag r \<le> pow2 1024 - pow2 971"
proof (cases "fexp r \<le> 1022")
  case True
  have "round_mag r \<le> pow2 (fexp r + 1)" by (rule round_mag_upper [OF assms(1)])
  also have "\<dots> \<le> pow2 1023" using True by (intro pow2_mono) simp
  also note pow2_1023_le
  finally show ?thesis .
next
  case False
  have "r < pow2 1024" using assms(2) pow2_pos [of 970] by simp
  with False have fe: "fexp r = 1023" using fexp_le_1023 [OF assms(1)] by simp
  have u: "0 < pow2 971" by (rule pow2_pos)
  have "pow2 970 * 2 = pow2 971" using pow2_add [of 970 1] by (simp add: pow2_def)
  then have "pow2 1024 - pow2 970 = (of_int (2 ^ 53 - 1) + 1 / 2) * pow2 971"
    by (simp add: pow2_1024_split algebra_simps)
  with assms(2) have "r < (of_int (2 ^ 53 - 1) + 1 / 2) * pow2 971" by simp
  then have "r / pow2 971 < of_int (2 ^ 53 - 1) + 1 / 2"
    using u by (simp only: pos_divide_less_eq)
  then have "round_half_even (r / pow2 971) \<le> 2 ^ 53 - 1" by (rule rhe_below_half)
  then have "(of_int (round_half_even (r / pow2 971)) :: rat) \<le> of_int (2 ^ 53 - 1)"
    by (simp only: of_int_le_iff)
  then have "of_int (round_half_even (r / pow2 971)) * pow2 971 \<le> of_int (2 ^ 53 - 1) * pow2 971"
    using u by (simp only: mult_le_cancel_right_pos)
  also have "\<dots> = pow2 1024 - pow2 971" by (simp add: pow2_1024_split algebra_simps)
  finally show ?thesis by (simp add: round_mag_fexp fe)
qed

lemma round_mag_threshold: "round_mag (pow2 1024 - pow2 970) = pow2 1024"
proof -
  let ?T = "pow2 1024 - pow2 970"
  have u: "0 < pow2 971" by (rule pow2_pos)
  have h: "pow2 970 * 2 = pow2 971" using pow2_add [of 970 1] by (simp add: pow2_def)
  have d: "pow2 1024 = 2 * pow2 1023" using pow2_add [of 1 1023] by (simp add: pow2_def)
  have "pow2 970 < pow2 1023" by (rule pow2_strict_mono) simp
  then have lo: "pow2 1023 \<le> ?T" using d by simp
  have hi: "?T < pow2 (1023 + 1)" using pow2_pos [of 970] by simp
  have pos: "0 < ?T" using lo pow2_pos [of 1023] by simp
  have T: "?T = (of_int (2 ^ 53 - 1) + 1 / 2) * pow2 971"
    using h by (simp add: pow2_1024_split algebra_simps)
  have "?T / pow2 971 = of_int (2 ^ 53 - 1) + 1 / 2"
    using u by (simp only: T nonzero_mult_div_cancel_right less_imp_neq [OF u, symmetric] simp_thms)
  then have "round_half_even (?T / pow2 971) = (2 ^ 53 - 1) + 1"
    by (rule rhe_tie_odd) simp
  then have "round_mag ?T = of_int (2 ^ 53) * pow2 971"
    using round_mag_unfold [OF pos lo hi] by simp
  then show ?thesis by (simp only: pow2_1024_split)
qed

lemma round_mag_overflow_iff:
  assumes "0 < r"
  shows "pow2 1024 \<le> round_mag r \<longleftrightarrow> pow2 1024 - pow2 970 \<le> r"
proof
  assume ov: "pow2 1024 \<le> round_mag r"
  show "pow2 1024 - pow2 970 \<le> r"
  proof (rule ccontr)
    assume "\<not> pow2 1024 - pow2 970 \<le> r"
    then have "round_mag r \<le> pow2 1024 - pow2 971"
      using round_mag_below_threshold [OF assms] by simp
    with ov pow2_pos [of 971] show False by simp
  qed
next
  assume ge: "pow2 1024 - pow2 970 \<le> r"
  have "pow2 970 < pow2 1024" by (rule pow2_strict_mono) simp
  then have "0 < pow2 1024 - pow2 970" by simp
  then have "round_mag (pow2 1024 - pow2 970) \<le> round_mag r"
    using ge by (rule round_mag_mono)
  then show "pow2 1024 \<le> round_mag r" by (simp only: round_mag_threshold)
qed

lemma round_mag_le_max:
  assumes "0 < r" "round_mag r < pow2 1024"
  shows "round_mag r \<le> pow2 1024 - pow2 971"
proof -
  have "\<not> pow2 1024 - pow2 970 \<le> r"
    using round_mag_overflow_iff [OF assms(1)] assms(2) by simp
  then show ?thesis using round_mag_below_threshold [OF assms(1)] by simp
qed


lemma float_lit_eq:
  assumes "0 < r" "pow2 e \<le> r" "r < pow2 (e + 1)" "- 1022 \<le> e" "e \<le> 1022"
    and "\<bar>r / pow2 (e - 52) - of_int m\<bar> < 1 / 2
         \<or> (\<bar>r / pow2 (e - 52) - of_int m\<bar> = 1 / 2 \<and> even m)"
    and "v = of_int m * pow2 (e - 52)"
  shows "float_lit r = Finite v"
  unfolding float_lit_def using assms by (rule rnd_pos_eq)

lemma fmul_eq:
  assumes "0 < a * b" "pow2 e \<le> a * b" "a * b < pow2 (e + 1)" "- 1022 \<le> e" "e \<le> 1022"
    and "\<bar>a * b / pow2 (e - 52) - of_int m\<bar> < 1 / 2
         \<or> (\<bar>a * b / pow2 (e - 52) - of_int m\<bar> = 1 / 2 \<and> even m)"
    and "v = of_int m * pow2 (e - 52)"
  shows "fmul (Finite a) (Finite b) = Finite v"
proof -
  have "rnd (a * b) = Finite v" using assms by (rule rnd_pos_eq)
  moreover have "a * b \<noteq> 0" using assms(1) by (rule less_imp_neq [symmetric])
  ultimately show ?thesis by (simp add: fmul_def Let_def)
qed

lemma fadd_eq:
  assumes "0 < a + b" "pow2 e \<le> a + b" "a + b < pow2 (e + 1)" "- 1022 \<le> e" "e \<le> 1022"
    and "\<bar>(a + b) / pow2 (e - 52) - of_int m\<bar> < 1 / 2
         \<or> (\<bar>(a + b) / pow2 (e - 52) - of_int m\<bar> = 1 / 2 \<and> even m)"
    and "v = of_int m * pow2 (e - 52)"
  shows "fadd (Finite a) (Finite b) = Finite v"
proof -
  have "rnd (a + b) = Finite v" using assms by (rule rnd_pos_eq)
  then show ?thesis using assms(1) by (simp add: fadd_def Let_def)
qed

lemma fsub_eq:
  assumes "0 < a - b" "pow2 e \<le> a - b" "a - b < pow2 (e + 1)" "- 1022 \<le> e" "e \<le> 1022"
    and "\<bar>(a - b) / pow2 (e - 52) - of_int m\<bar> < 1 / 2
         \<or> (\<bar>(a - b) / pow2 (e - 52) - of_int m\<bar> = 1 / 2 \<and> even m)"
    and "v = of_int m * pow2 (e - 52)"
  shows "fsub (Finite a) (Finite b) = Finite v"
proof -
  have "rnd (a - b) = Finite v" using assms by (rule rnd_pos_eq)
  then show ?thesis using assms(1) by (auto simp add: fsub_def fadd_def Let_def)
qed

lemma ext_rnd: "ext (rnd r) = rq r"
  using round_mag_nonneg [of "\<bar>r\<bar>"] pow2_pos [of 1024]
  by (auto simp: rnd_def rq_def Let_def abs_if min_def)

lemma ordinary_rnd: "ordinary (rnd r)"
  using round_mag_nonneg [of "\<bar>r\<bar>"] pow2_pos [of 1024]
  by (auto simp: rnd_def ordinary_def Let_def abs_if)

lemma rq_nonneg: "0 \<le> r \<Longrightarrow> 0 \<le> rq r"
  using round_mag_nonneg [of r] pow2_pos [of 1024] by (auto simp: rq_def min_def)

lemma rq_nonpos: "r \<le> 0 \<Longrightarrow> rq r \<le> 0"
  using round_mag_nonneg [of "- r"] pow2_pos [of 1024] by (auto simp: rq_def min_def)

lemma rq_mono:
  assumes "a \<le> b"
  shows "rq a \<le> rq b"
proof -
  consider "a \<le> 0" "0 \<le> b" | "0 < a" | "b < 0" by linarith
  then show ?thesis
  proof cases
    case 1
    then show ?thesis using rq_nonpos [of a] rq_nonneg [of b] by simp
  next
    case 2
    then have "round_mag a \<le> round_mag b" using assms by (rule round_mag_mono)
    then show ?thesis using 2 assms by (simp add: rq_def min_def)
  next
    case 3
    then have "0 < - b" "- b \<le> - a" using assms by simp_all
    then have "round_mag (- b) \<le> round_mag (- a)" by (rule round_mag_mono)
    then show ?thesis using 3 assms by (simp add: rq_def min_def)
  qed
qed

lemma rq_eq: "rnd r = Finite v \<Longrightarrow> rq r = v"
  using ext_rnd [of r] by simp

lemma flt_ext: "ordinary x \<Longrightarrow> ordinary y \<Longrightarrow> flt x y \<longleftrightarrow> ext x < ext y"
  using pow2_pos [of 1024]
  by (cases x; cases y) (auto simp: ordinary_def)

lemma ext_py_max:
  "ordinary a \<Longrightarrow> ordinary b \<Longrightarrow> ext (py_max a b) = max (ext a) (ext b) \<and> ordinary (py_max a b)"
  by (simp add: py_max_def flt_ext max_def)

lemma ext_py_min:
  "ordinary a \<Longrightarrow> ordinary b \<Longrightarrow> ext (py_min a b) = min (ext a) (ext b) \<and> ordinary (py_min a b)"
  by (auto simp add: py_min_def flt_ext min_def)

lemma ordinary_Finite_ext:
  assumes "ordinary x" "0 < ext x" "ext x < pow2 1024"
  shows "x = Finite (ext x)"
  using assms by (cases x) (simp_all add: ordinary_def)

lemma is_inf_rnd: "is_inf (rnd r) \<longleftrightarrow> pow2 1024 - pow2 970 \<le> \<bar>r\<bar>"
proof (cases "r = 0")
  case True
  have "pow2 970 < pow2 1024" by (rule pow2_strict_mono) simp
  then show ?thesis using True by (simp add: rnd_def)
next
  case False
  then have "0 < \<bar>r\<bar>" by simp
  from round_mag_overflow_iff [OF this] False show ?thesis
    by (auto simp: rnd_def Let_def)
qed

lemma fsub_one:
  assumes "ordinary q" "\<not> is_inf q"
  shows "ext (fsub (Finite 1) q) = rq (1 - ext q) \<and> ordinary (fsub (Finite 1) q)"
proof (cases q)
  case (Finite v)
  then show ?thesis
    using ext_rnd [of "1 - v"] ordinary_rnd [of "1 - v"] pow2_pos [of 1024]
    by (auto simp: fsub_def fadd_def Let_def rq_def ordinary_def)
next
  case NegZero
  then show ?thesis
    using ext_rnd [of 1] ordinary_rnd [of 1]
    by (simp add: fsub_def fadd_def Let_def)
qed (use assms in \<open>simp_all add: ordinary_def\<close>)

section \<open>Values of the literals and of the catalog scores\<close>

lemma lit_042: "float_lit (42 / 100) = Finite (7566047373982433 / 18014398509481984)"
  by (rule float_lit_eq [where e = "- 2" and m = 7566047373982433]) (simp_all add: pow2_def)

lemma lit_043: "float_lit (43 / 100) = Finite (7746191359077253 / 18014398509481984)"
  by (rule float_lit_eq [where e = "- 2" and m = 7746191359077253]) (simp_all add: pow2_def)

lemma lit_010: "float_lit (10 / 100) = Finite (3602879701896397 / 36028797018963968)"
  by (rule float_lit_eq [where e = "- 4" and m = 7205759403792794]) (simp_all add: pow2_def)

lemma lit_005: "float_lit (5 / 100) = Finite (3602879701896397 / 72057594037927936)"
  by (rule float_lit_eq [where e = "- 5" and m = 7205759403792794]) (simp_all add: pow2_def)

lemma lit_035: "float_lit (35 / 100) = Finite (3152519739159347 / 9007199254740992)"
  by (rule float_lit_eq [where e = "- 2" and m = 6305039478318694]) (simp_all add: pow2_def)

lemma lit_f78: "float_lit (78 / 10) = Finite (8782019273372467 / 1125899906842624)"
  by (rule float_lit_eq [where e = "2" and m = 8782019273372467]) (simp_all add: pow2_def)

lemma lit_f21: "float_lit (21 / 10) = Finite (4728779608739021 / 2251799813685248)"
  by (rule float_lit_eq [where e = "1" and m = 4728779608739021]) (simp_all add: pow2_def)

lemma lit_f93: "float_lit (93 / 10) = Finite (2617717283409101 / 281474976710656)"
  by (rule float_lit_eq [where e = "3" and m = 5235434566818202]) (simp_all add: pow2_def)

lemma lit_f84: "float_lit (84 / 10) = Finite (4728779608739021 / 562949953421312)"
  by (rule float_lit_eq [where e = "3" and m = 4728779608739021]) (simp_all add: pow2_def)

lemma aztec_b1: "fmul (Finite (7566047373982433 / 18014398509481984)) (Finite (2617717283409101 / 281474976710656)) = Finite (8795530072254579 / 2251799813685248)"
  by (rule fmul_eq [where e = "1" and m = 8795530072254579]) (simp_all add: pow2_def)

lemma aztec_b2: "fmul (Finite (7746191359077253 / 18014398509481984)) (Finite (4728779608739021 / 562949953421312)) = Finite (2033375231757779 / 562949953421312)"
  by (rule fmul_eq [where e = "1" and m = 8133500927031116]) (simp_all add: pow2_def)

lemma aztec_b: "fadd (Finite (8795530072254579 / 2251799813685248)) (Finite (2033375231757779 / 562949953421312)) = Finite (264516109363839 / 35184372088832)"
  by (rule fadd_eq [where e = "2" and m = 8464515499642848]) (simp_all add: pow2_def)

lemma aztec_p1: "fmul (Finite (3602879701896397 / 36028797018963968)) (Finite (8782019273372467 / 1125899906842624)) = Finite (3512807709348987 / 4503599627370496)"
  by (rule fmul_eq [where e = "- 1" and m = 7025615418697974]) (simp_all add: pow2_def)

lemma aztec_p2: "fmul (Finite (3602879701896397 / 72057594037927936)) (Finite (4728779608739021 / 2251799813685248)) = Finite (3783023686991217 / 36028797018963968)"
  by (rule fmul_eq [where e = "- 4" and m = 7566047373982434]) (simp_all add: pow2_def)

lemma aztec_p: "fadd (Finite (3512807709348987 / 4503599627370496)) (Finite (3783023686991217 / 36028797018963968)) = Finite (3985685670222889 / 4503599627370496)"
  by (rule fadd_eq [where e = "- 1" and m = 7971371340445778]) (simp_all add: pow2_def)

lemma aztec_d: "fsub (Finite (264516109363839 / 35184372088832)) (Finite (3985685670222889 / 4503599627370496)) = Finite (3734047041043563 / 562949953421312)"
  by (rule fsub_eq [where e = "2" and m = 7468094082087126]) (simp_all add: pow2_def)

lemma lit_f92: "float_lit (92 / 10) = Finite (2589569785738035 / 281474976710656)"
  by (rule float_lit_eq [where e = "3" and m = 5179139571476070]) (simp_all add: pow2_def)

lemma lit_f87: "float_lit (87 / 10) = Finite (2448832297382707 / 281474976710656)"
  by (rule float_lit_eq [where e = "3" and m = 4897664594765414]) (simp_all add: pow2_def)

lemma lit_f91: "float_lit (91 / 10) = Finite (5122844576133939 / 562949953421312)"
  by (rule float_lit_eq [where e = "3" and m = 5122844576133939]) (simp_all add: pow2_def)

lemma zama_b1: "fmul (Finite (7566047373982433 / 18014398509481984)) (Finite (2448832297382707 / 281474976710656)) = Finite (8228076519205895 / 2251799813685248)"
  by (rule fmul_eq [where e = "1" and m = 8228076519205895]) (simp_all add: pow2_def)

lemma zama_b2: "fmul (Finite (7746191359077253 / 18014398509481984)) (Finite (5122844576133939 / 562949953421312)) = Finite (8811292670950375 / 2251799813685248)"
  by (rule fmul_eq [where e = "1" and m = 8811292670950375]) (simp_all add: pow2_def)

lemma zama_b: "fadd (Finite (8228076519205895 / 2251799813685248)) (Finite (8811292670950375 / 2251799813685248)) = Finite (8519684595078135 / 1125899906842624)"
  by (rule fadd_eq [where e = "2" and m = 8519684595078135]) (simp_all add: pow2_def)

lemma zama_p1: "fmul (Finite (3602879701896397 / 36028797018963968)) (Finite (2589569785738035 / 281474976710656)) = Finite (517913957147607 / 562949953421312)"
  by (rule fmul_eq [where e = "- 1" and m = 8286623314361712]) (simp_all add: pow2_def)

lemma zama_p2: "fmul (Finite (3602879701896397 / 72057594037927936)) (Finite (8782019273372467 / 1125899906842624)) = Finite (3512807709348987 / 9007199254740992)"
  by (rule fmul_eq [where e = "- 2" and m = 7025615418697974]) (simp_all add: pow2_def)

lemma zama_p: "fadd (Finite (517913957147607 / 562949953421312)) (Finite (3512807709348987 / 9007199254740992)) = Finite (2949857755927675 / 2251799813685248)"
  by (rule fadd_eq [where e = "0" and m = 5899715511855350]) (simp_all add: pow2_def)

lemma zama_d: "fsub (Finite (8519684595078135 / 1125899906842624)) (Finite (2949857755927675 / 2251799813685248)) = Finite (3522377858557149 / 562949953421312)"
  by (rule fsub_eq [where e = "2" and m = 7044755717114298]) (simp_all add: pow2_def)

lemma lit_f61: "float_lit (61 / 10) = Finite (3433994715870003 / 562949953421312)"
  by (rule float_lit_eq [where e = "2" and m = 6867989431740006]) (simp_all add: pow2_def)

lemma lit_f32: "float_lit (32 / 10) = Finite (3602879701896397 / 1125899906842624)"
  by (rule float_lit_eq [where e = "1" and m = 7205759403792794]) (simp_all add: pow2_def)

lemma lit_f64: "float_lit (64 / 10) = Finite (3602879701896397 / 562949953421312)"
  by (rule float_lit_eq [where e = "2" and m = 7205759403792794]) (simp_all add: pow2_def)

lemma lit_f100: "float_lit 10 = Finite 10"
  by (rule float_lit_eq [where e = "3" and m = 5629499534213120]) (simp_all add: pow2_def)

lemma soundness_b1: "fmul (Finite (7566047373982433 / 18014398509481984)) (Finite (3602879701896397 / 562949953421312)) = Finite (6052837899185947 / 2251799813685248)"
  by (rule fmul_eq [where e = "1" and m = 6052837899185947]) (simp_all add: pow2_def)

lemma soundness_b2: "fmul (Finite (7746191359077253 / 18014398509481984)) (Finite 10) = Finite (4841369599423283 / 1125899906842624)"
  by (rule fmul_eq [where e = "2" and m = 4841369599423283]) (simp_all add: pow2_def)

lemma soundness_b: "fadd (Finite (6052837899185947 / 2251799813685248)) (Finite (4841369599423283 / 1125899906842624)) = Finite (122934196078379 / 17592186044416)"
  by (rule fadd_eq [where e = "2" and m = 7867788549016256]) (simp_all add: pow2_def)

lemma soundness_p1: "fmul (Finite (3602879701896397 / 36028797018963968)) (Finite (3433994715870003 / 562949953421312)) = Finite (5494391545392005 / 9007199254740992)"
  by (rule fmul_eq [where e = "- 1" and m = 5494391545392005]) (simp_all add: pow2_def)

lemma soundness_p2: "fmul (Finite (3602879701896397 / 72057594037927936)) (Finite (3602879701896397 / 1125899906842624)) = Finite (1441151880758559 / 9007199254740992)"
  by (rule fmul_eq [where e = "- 3" and m = 5764607523034236]) (simp_all add: pow2_def)

lemma soundness_p: "fadd (Finite (5494391545392005 / 9007199254740992)) (Finite (1441151880758559 / 9007199254740992)) = Finite (1733885856537641 / 2251799813685248)"
  by (rule fadd_eq [where e = "- 1" and m = 6935543426150564]) (simp_all add: pow2_def)

lemma soundness_d: "fsub (Finite (122934196078379 / 17592186044416)) (Finite (1733885856537641 / 2251799813685248)) = Finite (1750211405186859 / 281474976710656)"
  by (rule fsub_eq [where e = "2" and m = 7000845620747436]) (simp_all add: pow2_def)

section \<open>The throughput factor and the quality index\<close>

lemma lit_1: "float_lit 1 = Finite 1"
  by (rule float_lit_eq [where e = 0 and m = "2 ^ 52"]) (simp_all add: pow2_def)

lemma threshold_eq: "pow2 1024 - pow2 970 = of_int (2 ^ 1024 - 2 ^ 970)"
  by (simp add: pow2_def)

lemma is_inf_truediv:
  "is_inf (rnd (of_int t / 20000)) \<longleftrightarrow> tx_rate_bound \<le> \<bar>t\<bar>"
proof -
  have "pow2 1024 - pow2 970 \<le> \<bar>of_int t / 20000\<bar>
      \<longleftrightarrow> (of_int (20000 * (2 ^ 1024 - 2 ^ 970)) :: rat) \<le> of_int \<bar>t\<bar>"
    unfolding threshold_eq by (simp add: field_simps)
  also have "\<dots> \<longleftrightarrow> tx_rate_bound \<le> \<bar>t\<bar>"
    unfolding tx_rate_bound_def by (simp only: of_int_le_iff)
  finally show ?thesis by (simp only: is_inf_rnd)
qed

lemma tx_rate_bound_pos: "0 < tx_rate_bound"
  by (simp add: tx_rate_bound_def)

lemma int_truediv_overflow:
  assumes "tx_rate_bound \<le> \<bar>t\<bar>"
  shows "int_truediv t 20000 = Inl OverflowError"
proof -
  have "t \<noteq> 0" using assms tx_rate_bound_pos by auto
  then show ?thesis using assms by (simp add: int_truediv_def Let_def is_inf_truediv)
qed

lemma int_truediv_in_range:
  assumes "\<bar>t\<bar> < tx_rate_bound"
  shows "\<exists>q. int_truediv t 20000 = Inr q \<and> ordinary q \<and> \<not> is_inf q
           \<and> ext q = rq (of_int t / 20000)"
proof (cases "t = 0")
  case True
  then show ?thesis using pow2_pos [of 1024]
    by (simp add: int_truediv_def ordinary_def rq_def)
next
  case False
  have "\<not> is_inf (rnd (of_int t / 20000))" using assms by (simp add: is_inf_truediv)
  then show ?thesis using False
    by (simp add: int_truediv_def Let_def ordinary_rnd ext_rnd)
qed

lemma lit_c035: "float_lit (35 / 100) = Finite c035"
  by (simp only: lit_035 c035_def)

lemma pow2_1024_gt_1: "1 < pow2 1024"
  using pow2_strict_mono [of 0 1024] by (simp add: pow2_def)

lemma c035_bounds: "0 < c035" "c035 < 1"
  by (simp_all add: c035_def)

lemma ordinary_consts: "ordinary (Finite c035)" "ordinary (Finite 1)"
  using pow2_1024_gt_1 c035_bounds by (simp_all add: ordinary_def)

lemma tfv_bounds: "c035 \<le> tfv t" "tfv t \<le> 1" "0 < tfv t"
  using c035_bounds by (simp_all add: tfv_def min_def max_def)

lemma throughput_factor_in_range:
  assumes "\<bar>t\<bar> < tx_rate_bound"
  shows "throughput_factor t = Inr (Finite (tfv t))"
proof -
  obtain q where q: "int_truediv t 20000 = Inr q" "ordinary q" "\<not> is_inf q"
      "ext q = rq (of_int t / 20000)"
    using int_truediv_in_range [OF assms] by blast
  let ?r = "fsub (Finite 1) q"
  let ?m = "py_max (Finite c035) ?r"
  let ?f = "py_min (Finite 1) ?m"
  have r: "ext ?r = rq (1 - ext q)" "ordinary ?r" using fsub_one [OF q(2,3)] by simp_all
  have m: "ext ?m = max c035 (ext ?r)" "ordinary ?m"
    using ext_py_max [OF ordinary_consts(1) r(2)] by simp_all
  have f: "ext ?f = min 1 (ext ?m)" "ordinary ?f"
    using ext_py_min [OF ordinary_consts(2) m(2)] by simp_all
  have e: "ext ?f = tfv t" by (simp add: f(1) m(1) r(1) q(4) tfv_def)
  have "0 < ext ?f" "ext ?f < pow2 1024"
    using tfv_bounds [of t] pow2_1024_gt_1 by (simp_all add: e)
  then have "?f = Finite (ext ?f)" by (rule ordinary_Finite_ext [OF f(2)])
  then show ?thesis unfolding throughput_factor_def lit_c035 lit_1 by (simp add: q(1) e)
qed

lemma throughput_factor_overflow:
  assumes "tx_rate_bound \<le> \<bar>t\<bar>"
  shows "throughput_factor t = Inl OverflowError"
  by (simp add: throughput_factor_def int_truediv_overflow [OF assms])

lemma tfv_antimono:
  assumes "t1 \<le> t2"
  shows "tfv t2 \<le> tfv t1"
proof -
  have "(of_int t1 :: rat) / 20000 \<le> of_int t2 / 20000" using assms by simp
  then have "rq (of_int t1 / 20000) \<le> rq (of_int t2 / 20000)" by (rule rq_mono)
  then have "1 - rq (of_int t2 / 20000) \<le> 1 - rq (of_int t1 / 20000)" by simp
  then have "rq (1 - rq (of_int t2 / 20000)) \<le> rq (1 - rq (of_int t1 / 20000))"
    by (rule rq_mono)
  then show ?thesis by (simp add: tfv_def min_def max_def)
qed

lemma rq_0: "rq 0 = 0"
  by (simp add: rq_def)

lemma rq_1: "rq 1 = 1"
  using lit_1 by (simp add: float_lit_def rq_eq)

lemma tfv_nonpos:
  assumes "t \<le> 0"
  shows "tfv t = 1"
proof -
  have "(of_int t :: rat) / 20000 \<le> 0" using assms by simp
  then have "rq (of_int t / 20000) \<le> 0" by (rule rq_nonpos)
  then have "1 \<le> 1 - rq (of_int t / 20000)" by simp
  then have "rq 1 \<le> rq (1 - rq (of_int t / 20000))" by (rule rq_mono)
  then show ?thesis by (simp add: tfv_def rq_1 min_def max_def)
qed

lemma rnd_065: "rnd (13 / 20) = Finite (5854679515581645 / 9007199254740992)"
  by (rule rnd_pos_eq [where e = "- 1" and m = 5854679515581645]) (simp_all add: pow2_def)

lemma rnd_1m065: "rnd (3152519739159347 / 9007199254740992) = Finite (3152519739159347 / 9007199254740992)"
  by (rule rnd_pos_eq [where e = "- 2" and m = 6305039478318694]) (simp_all add: pow2_def)

lemma tfv_13000: "tfv 13000 = c035"
proof -
  have a: "(of_int 13000 :: rat) / 20000 = 13 / 20" by simp
  have b: "1 - (5854679515581645 / 9007199254740992 :: rat) = 3152519739159347 / 9007199254740992"
    by simp
  show ?thesis
    unfolding tfv_def a rq_eq [OF rnd_065] b rq_eq [OF rnd_1m065] by (simp add: c035_def)
qed

lemma tfv_ge_13000:
  assumes "13000 \<le> t"
  shows "tfv t = c035"
  using tfv_antimono [OF assms] tfv_bounds(1) [of t] by (simp add: tfv_13000)

lemma cqi_unfold:
  "compute_quality_index system tx_rate =
     (case throughput_factor tx_rate of
        Inl e \<Rightarrow> Inl e
      | Inr tf \<Rightarrow> py_round (fmul (score_base system) tf) 4)"
  unfolding compute_quality_index_def score_base_def Let_def by (rule refl)

lemma max_double_nonneg: "0 \<le> pow2 1024 - pow2 971"
  using pow2_mono [of 971 1024] by simp

lemma rnd_Finite_bound:
  assumes "rnd p = Finite r"
  shows "\<bar>r\<bar> \<le> pow2 1024 - pow2 971"
proof (cases "p = 0")
  case True
  with assms show ?thesis using max_double_nonneg by (simp add: rnd_def)
next
  case False
  then have pos: "0 < \<bar>p\<bar>" by simp
  from assms False have "round_mag \<bar>p\<bar> < pow2 1024" "\<bar>r\<bar> = \<bar>round_mag \<bar>p\<bar>\<bar>"
    by (auto simp: rnd_def Let_def split: if_splits)
  then show ?thesis
    using round_mag_le_max [OF pos] round_mag_nonneg [OF pos] by simp
qed

lemma fmul_Finite_bound:
  assumes "fmul x y = Finite r"
  shows "\<bar>r\<bar> \<le> pow2 1024 - pow2 971"
proof -
  from assms have "r = 0 \<or> rnd (fval x * fval y) = Finite r"
    by (auto simp: fmul_def Let_def split: if_splits)
  then show ?thesis using rnd_Finite_bound [of "fval x * fval y" r] max_double_nonneg by auto
qed

lemma threshold_gap: "pow2 1024 - pow2 970 = (pow2 1024 - pow2 971) + pow2 970"
  using pow2_add [of 970 1] by (simp add: pow2_def)

lemma pow2_970_ge_1: "1 \<le> pow2 970"
  using pow2_mono [of 0 970] by (simp add: pow2_def)

lemma decimal_round_close:
  "\<bar>of_int (round_half_even (r * 10 ^ n)) / 10 ^ n - r\<bar> \<le> 1 / 2"
proof -
  let ?k = "round_half_even (r * 10 ^ n)"
  have p: "(1 :: rat) \<le> 10 ^ n" by simp
  have "\<bar>of_int ?k - r * 10 ^ n\<bar> \<le> 1 / 2"
    using rhe_upper [of "r * 10 ^ n"] rhe_lower [of "r * 10 ^ n"] by linarith
  then have "\<bar>of_int ?k - r * 10 ^ n\<bar> / 10 ^ n \<le> (1 / 2) / 10 ^ n"
    by (rule divide_right_mono) simp
  moreover have "\<bar>of_int ?k - r * 10 ^ n\<bar> / 10 ^ n = \<bar>of_int ?k / 10 ^ n - r\<bar>"
  proof -
    have "of_int ?k / 10 ^ n - r = (of_int ?k - r * 10 ^ n) / 10 ^ n"
      by (simp add: diff_divide_distrib)
    then have "\<bar>of_int ?k / 10 ^ n - r\<bar> = \<bar>(of_int ?k - r * 10 ^ n) / 10 ^ n\<bar>"
      by (rule arg_cong)
    then show ?thesis by (simp only: abs_divide power_abs abs_numeral)
  qed
  moreover have "(1 / 2) / (10 ^ n :: rat) \<le> 1 / 2"
    using p by (simp add: field_simps)
  ultimately show ?thesis by linarith
qed

lemma decimal_round_finite:
  assumes "\<bar>r\<bar> \<le> pow2 1024 - pow2 971"
  shows "\<not> is_inf (rnd (of_int (round_half_even (r * 10 ^ n)) / 10 ^ n))"
proof -
  have "\<bar>of_int (round_half_even (r * 10 ^ n)) / 10 ^ n\<bar> \<le> \<bar>r\<bar> + 1 / 2"
    using decimal_round_close [of r n] by linarith
  then have "\<bar>of_int (round_half_even (r * 10 ^ n)) / 10 ^ n\<bar> < pow2 1024 - pow2 970"
    using assms pow2_970_ge_1 unfolding threshold_gap by linarith
  then show ?thesis by (simp add: is_inf_rnd)
qed

lemma py_round_total:
  assumes "\<bar>r\<bar> \<le> pow2 1024 - pow2 971"
  shows "\<exists>y. py_round (Finite r) n = Inr y"
  using decimal_round_finite [OF assms, of n] by (simp add: py_round_def Let_def)

lemma py_round_fmul_total: "\<exists>y. py_round (fmul x y') n = Inr y"
proof (cases "fmul x y'")
  case (Finite r)
  then show ?thesis using py_round_total [OF fmul_Finite_bound [OF Finite]] by simp
qed (simp_all add: py_round_def)

lemma rnd_pos_rq:
  assumes "0 < p" "p < pow2 1024 - pow2 970"
  shows "rnd p = Finite (rq p)"
proof -
  have "\<not> pow2 1024 \<le> round_mag p" using round_mag_overflow_iff [OF assms(1)] assms(2) by simp
  then show ?thesis using assms(1) by (simp add: rnd_def rq_def Let_def min_def)
qed

lemma rq_pos_bound:
  assumes "0 < p" "p < pow2 1024 - pow2 970"
  shows "rq p \<le> pow2 1024 - pow2 971"
  using rnd_Finite_bound [OF rnd_pos_rq [OF assms]] by simp

lemma py_round_nonneg:
  assumes "0 \<le> x" "x \<le> pow2 1024 - pow2 971"
  shows "py_round (Finite x) 4 = Inr (Finite (rq (of_int (round_half_even (x * 10 ^ 4)) / 10 ^ 4)))"
proof -
  let ?d = "(of_int (round_half_even (x * 10 ^ 4)) :: rat) / 10 ^ 4"
  have "(of_int 0 :: rat) \<le> x * 10 ^ 4" using assms(1) by simp
  then have "0 \<le> round_half_even (x * 10 ^ 4)" by (rule rhe_ge)
  then have d0: "0 \<le> ?d" by simp
  have "\<bar>x\<bar> \<le> pow2 1024 - pow2 971" using assms by simp
  then have ni: "\<not> is_inf (rnd ?d)" by (rule decimal_round_finite)
  show ?thesis
  proof (cases "?d = 0")
    case True
    then show ?thesis using assms(1) unfolding py_round_def Let_def by (simp add: rq_0)
  next
    case False
    with d0 have pos: "0 < ?d" by simp
    have "\<not> pow2 1024 - pow2 970 \<le> \<bar>?d\<bar>" using ni unfolding is_inf_rnd by assumption
    then have "?d < pow2 1024 - pow2 970" using pos by linarith
    then have "rnd ?d = Finite (rq ?d)" by (rule rnd_pos_rq [OF pos])
    then show ?thesis using False unfolding py_round_def Let_def by simp
  qed
qed

lemma small_below_threshold: "p \<le> 8 \<Longrightarrow> p < pow2 1024 - pow2 970"
proof -
  assume "p \<le> 8"
  moreover have "pow2 1023 \<le> pow2 1024 - pow2 970"
    using pow2_1023_le pow2_mono [of 970 971] by simp
  moreover have "(8 :: rat) < pow2 1023" using pow2_strict_mono [of 3 1023] by (simp add: pow2_def)
  ultimately show ?thesis by simp
qed

lemma cqi_closed:
  assumes sb: "score_base system = Finite d" and d: "0 < d" "d \<le> 8"
    and t: "\<bar>t\<bar> < tx_rate_bound"
  shows "compute_quality_index system t = Inr (Finite (qv d t))"
proof -
  have p: "0 < d * tfv t" using d(1) tfv_bounds(3) [of t] by simp
  have "d * tfv t \<le> d * 1" using d(1) tfv_bounds(2) [of t] by (intro mult_left_mono) simp_all
  then have "d * tfv t \<le> 8" using d(2) by simp
  then have lt: "d * tfv t < pow2 1024 - pow2 970" by (rule small_below_threshold)
  have "d * tfv t \<noteq> 0" using p by (rule less_imp_neq [symmetric])
  then have m: "fmul (Finite d) (Finite (tfv t)) = Finite (rq (d * tfv t))"
    using rnd_pos_rq [OF p lt] by (simp add: fmul_def Let_def)
  have x0: "0 \<le> rq (d * tfv t)" using p by (intro rq_nonneg) simp
  have x1: "rq (d * tfv t) \<le> pow2 1024 - pow2 971" by (rule rq_pos_bound [OF p lt])
  show ?thesis
    unfolding cqi_unfold throughput_factor_in_range [OF t] sb
    by (simp add: m py_round_nonneg [OF x0 x1] qv_def)
qed

lemma qv_antimono:
  assumes "0 < d" "t1 \<le> t2"
  shows "qv d t2 \<le> qv d t1"
proof -
  have "d * tfv t2 \<le> d * tfv t1"
    using assms(1) tfv_antimono [OF assms(2)] by (intro mult_left_mono) simp_all
  then have "rq (d * tfv t2) \<le> rq (d * tfv t1)" by (rule rq_mono)
  then have "rq (d * tfv t2) * 10 ^ 4 \<le> rq (d * tfv t1) * 10 ^ 4" by simp
  then have "round_half_even (rq (d * tfv t2) * 10 ^ 4) \<le> round_half_even (rq (d * tfv t1) * 10 ^ 4)"
    by (rule rhe_mono)
  then have "(of_int (round_half_even (rq (d * tfv t2) * 10 ^ 4)) :: rat) / 10 ^ 4
      \<le> of_int (round_half_even (rq (d * tfv t1) * 10 ^ 4)) / 10 ^ 4"
    by (simp add: divide_right_mono)
  then show ?thesis unfolding qv_def by (rule rq_mono)
qed

lemma score_base_aztec: "score_base aztec = Finite (3734047041043563 / 562949953421312)"
  unfolding score_base_def aztec_def
  by (simp only: ProofSystem.simps lit_042 lit_043 lit_010 lit_005 lit_f78 lit_f21 lit_f93 lit_f84
      aztec_b1 aztec_b2 aztec_b aztec_p1 aztec_p2 aztec_p aztec_d)

lemma score_base_zama: "score_base zama = Finite (3522377858557149 / 562949953421312)"
  unfolding score_base_def zama_def
  by (simp only: ProofSystem.simps lit_042 lit_043 lit_010 lit_005 lit_f92 lit_f78 lit_f87 lit_f91
      zama_b1 zama_b2 zama_b zama_p1 zama_p2 zama_p zama_d)

lemma score_base_soundness: "score_base soundness = Finite (1750211405186859 / 281474976710656)"
  unfolding score_base_def soundness_def
  by (simp only: ProofSystem.simps lit_042 lit_043 lit_010 lit_005 lit_f61 lit_f32 lit_f64 lit_f100
      soundness_b1 soundness_b2 soundness_b soundness_p1 soundness_p2 soundness_p soundness_d)

lemma catalog_score_base:
  assumes "(k, s) \<in> set SYSTEMS"
  shows "\<exists>d. score_base s = Finite d \<and> 0 < d \<and> d \<le> 8"
proof -
  from assms have "s = aztec \<or> s = zama \<or> s = soundness" by (auto simp: SYSTEMS_def)
  then show ?thesis
    using score_base_aztec score_base_zama score_base_soundness by auto
qed

lemma getitem_aztec: "SYSTEMS_getitem (ascii ''aztec'') = Inr aztec"
  by (simp add: SYSTEMS_getitem_def SYSTEMS_def ascii_def)

lemma in_range_small: "\<bar>t\<bar> \<le> 2 ^ 64 \<Longrightarrow> \<bar>t\<bar> < tx_rate_bound"
  by (simp add: tx_rate_bound_def)

lemma tfv_0: "tfv 0 = 1"
  by (rule tfv_nonpos) simp

lemma tfv_20000: "tfv 20000 = c035"
  by (rule tfv_ge_13000) simp

lemma rq_aztec_d: "rq (3734047041043563 / 562949953421312) = 3734047041043563 / 562949953421312"
  by (rule rq_eq, rule rnd_pos_eq [where e = 2 and m = 7468094082087126]) (simp_all add: pow2_def)

lemma lit_6633: "float_lit (6633 / 1000) = Finite (7468094082087125 / 1125899906842624)"
  by (rule float_lit_eq [where e = 2 and m = 7468094082087125]) (simp_all add: pow2_def)

lemma qv_aztec_0: "qv (3734047041043563 / 562949953421312) 0 = 7468094082087125 / 1125899906842624"
proof -
  have a: "(3734047041043563 / 562949953421312 :: rat) * 1 = 3734047041043563 / 562949953421312"
    by simp
  have b: "round_half_even (3734047041043563 / 562949953421312 * 10 ^ 4) = 66330"
    by (rule rhe_eval) simp
  have c: "(of_int 66330 :: rat) / 10 ^ 4 = 6633 / 1000" by simp
  have d: "rq (6633 / 1000) = 7468094082087125 / 1125899906842624"
    using lit_6633 unfolding float_lit_def by (rule rq_eq)
  show ?thesis unfolding qv_def tfv_0 a rq_aztec_d b c d by (rule refl)
qed

lemma cqi_aztec_0: "compute_quality_index aztec 0 = Inr (float_lit (6633 / 1000))"
proof -
  have r: "\<bar>0 :: int\<bar> < tx_rate_bound" by (rule in_range_small) simp
  show ?thesis
    unfolding lit_6633 by (simp add: cqi_closed [OF score_base_aztec _ _ r] qv_aztec_0)
qed

lemma str_int_0: "str_int 0 = ascii ''0''"
  by (simp add: str_int_def str_nat.simps [of 0] ascii_def)

section \<open>The claims\<close>

text \<open>
  Claim C1.  For the catalog record stored under the key \<^verbatim>\<open>aztec\<close> and a transaction
  rate of 0, the throughput factor is \<^verbatim>\<open>1.0\<close> and \<^verbatim>\<open>compute_quality_index\<close> returns
  exactly the float \<^verbatim>\<open>6.633\<close>.  In binary64 the benefit is \<^verbatim>\<open>7.518000000000001\<close>, the
  penalty \<^verbatim>\<open>0.885\<close> and their difference \<^verbatim>\<open>6.633000000000001\<close>; rounding to four
  decimal places gives the double nearest to 6.633.
\<close>

theorem aztec_rate_0:
  "SYSTEMS_getitem (ascii ''aztec'') = Inr aztec
   \<and> throughput_factor 0 = Inr (float_lit 1)
   \<and> compute_quality_index aztec 0 = Inr (float_lit (6633 / 1000))"
proof -
  have r: "\<bar>0 :: int\<bar> < tx_rate_bound" by (rule in_range_small) simp
  have "throughput_factor 0 = Inr (float_lit 1)"
    unfolding throughput_factor_in_range [OF r] tfv_0 lit_1 by (rule refl)
  then show ?thesis using getitem_aztec cqi_aztec_0 by simp
qed

lemma lit_23216: "float_lit (23216 / 10000) = Finite (653472305931459 / 281474976710656)"
  by (rule float_lit_eq [where e = 1 and m = 5227778447451672]) (simp_all add: pow2_def)

lemma qv_aztec_20000:
  "qv (3734047041043563 / 562949953421312) 20000 = 653472305931459 / 281474976710656"
proof -
  have a: "rq (3734047041043563 / 562949953421312 * c035) = 1306916464365247 / 562949953421312"
    by (rule rq_eq, rule rnd_pos_eq [where e = 1 and m = 5227665857460988])
       (simp_all add: pow2_def c035_def)
  have b: "round_half_even (1306916464365247 / 562949953421312 * 10 ^ 4) = 23216"
    by (rule rhe_eval) simp
  have c: "(of_int 23216 :: rat) / 10 ^ 4 = 23216 / 10000" by simp
  have d: "rq (23216 / 10000) = 653472305931459 / 281474976710656"
    using lit_23216 unfolding float_lit_def by (rule rq_eq)
  show ?thesis unfolding qv_def tfv_20000 a b c d by (rule refl)
qed

text \<open>
  The expression \<^verbatim>\<open>round(6.633 * 0.35, 4)\<close> on the literals is a different computation:
  the double nearest to 6.633 times the double nearest to 0.35 is a double just below the
  decimal tie 2.32155, and \<^verbatim>\<open>round\<close> takes it down to \<^verbatim>\<open>2.3215\<close>.
\<close>

lemma lit_23215: "float_lit (23215 / 10000) = Finite (5227553267470303 / 2251799813685248)"
  by (rule float_lit_eq [where e = 1 and m = 5227553267470303]) (simp_all add: pow2_def)

lemma round_of_literal_product:
  "py_round (fmul (float_lit (6633 / 1000)) (float_lit (35 / 100))) 4
     = Inr (float_lit (23215 / 10000))"
proof -
  have m: "fmul (Finite (7468094082087125 / 1125899906842624))
      (Finite (3152519739159347 / 9007199254740992))
      = Finite (5227665857460987 / 2251799813685248)"
    by (rule fmul_eq [where e = 1 and m = 5227665857460987]) (simp_all add: pow2_def)
  have x0: "(0 :: rat) \<le> 5227665857460987 / 2251799813685248" by simp
  have x1: "(5227665857460987 / 2251799813685248 :: rat) \<le> pow2 1024 - pow2 971"
    using pow2_1023_le pow2_mono [of 3 1023] by (simp add: pow2_def)
  have b: "round_half_even (5227665857460987 / 2251799813685248 * 10 ^ 4) = 23215"
    by (rule rhe_eval) simp
  have c: "(of_int 23215 :: rat) / 10 ^ 4 = 23215 / 10000" by simp
  have d: "rq (23215 / 10000) = 5227553267470303 / 2251799813685248"
    using lit_23215 unfolding float_lit_def by (rule rq_eq)
  show ?thesis
    unfolding lit_6633 lit_035 m py_round_nonneg [OF x0 x1] b c d lit_23215 by (rule refl)
qed

text \<open>
  Claim C4.  For the catalog record stored under \<^verbatim>\<open>aztec\<close> and a transaction rate of
  20000 the throughput factor is \<^verbatim>\<open>0.35\<close> and \<^verbatim>\<open>compute_quality_index\<close> returns the
  float \<^verbatim>\<open>2.3216\<close>, the first of the two values the claim allows: the difference of
  benefit and penalty is the double \<^verbatim>\<open>6.633000000000001\<close>, so the product handed to
  \<^verbatim>\<open>round\<close> is the double \<^verbatim>\<open>2.3215500000000002\<close>, which lies above the decimal tie.
\<close>

theorem aztec_rate_20000:
  "SYSTEMS_getitem (ascii ''aztec'') = Inr aztec
   \<and> throughput_factor 20000 = Inr (float_lit (35 / 100))
   \<and> compute_quality_index aztec 20000 = Inr (float_lit (23216 / 10000))"
proof -
  have r: "\<bar>20000 :: int\<bar> < tx_rate_bound" by (rule in_range_small) simp
  have "throughput_factor 20000 = Inr (float_lit (35 / 100))"
    unfolding throughput_factor_in_range [OF r] tfv_20000 lit_c035 by (rule refl)
  moreover have "compute_quality_index aztec 20000 = Inr (float_lit (23216 / 10000))"
    unfolding lit_23216
    by (simp add: cqi_closed [OF score_base_aztec _ _ r] qv_aztec_20000)
  ultimately show ?thesis using getitem_aztec by simp
qed

lemma float_consts_fle:
  "fle (float_lit (35 / 100)) (Finite v) \<longleftrightarrow> c035 \<le> v"
  "fle (Finite v) (float_lit 1) \<longleftrightarrow> v \<le> 1"
  "fle (Finite a) (Finite b) \<longleftrightarrow> a \<le> b"
  unfolding lit_c035 lit_1 by (auto simp: fle_def)

lemma fsub_one_value:
  assumes "ordinary q" "\<not> is_inf q"
  shows "fsub (Finite 1) q = (if fval q = 1 then Finite 0 else rnd (1 - fval q))"
proof (cases q)
  case (Finite v)
  then show ?thesis by (auto simp: fsub_def fadd_def Let_def)
next
  case NegZero
  then show ?thesis by (simp add: fsub_def fadd_def Let_def)
qed (use assms in \<open>simp_all add: ordinary_def\<close>)

lemma clamp_cases:
  assumes "ordinary r"
  shows "py_min (float_lit 1) (py_max (float_lit (35 / 100)) r)
     = (if fle r (float_lit (35 / 100)) then float_lit (35 / 100)
        else if fle (float_lit 1) r then float_lit 1 else r)"
proof -
  have n: "r \<noteq> NaN" using assms by (simp add: ordinary_def)
  have a: "flt (Finite c035) r \<longleftrightarrow> c035 < ext r" "flt r (Finite c035) \<longleftrightarrow> ext r < c035"
    "flt r (Finite 1) \<longleftrightarrow> ext r < 1" "flt (Finite 1) r \<longleftrightarrow> 1 < ext r"
    using flt_ext [OF ordinary_consts(1) assms] flt_ext [OF assms ordinary_consts(1)]
      flt_ext [OF assms ordinary_consts(2)] flt_ext [OF ordinary_consts(2) assms]
    by simp_all
  show ?thesis
    unfolding lit_c035 lit_1 using n c035_bounds
    by (auto simp: py_max_def py_min_def fle_def a)
qed

lemma lit_075: "float_lit (75 / 100) = Finite (3 / 4)"
  by (rule float_lit_eq [where e = "- 1" and m = 6755399441055744]) (simp_all add: pow2_def)

lemma rnd_quarter: "rnd (1 / 4) = Finite (1 / 4)"
  by (rule rnd_pos_eq [where e = "- 2" and m = 4503599627370496]) (simp_all add: pow2_def)

lemma rnd_three_quarters: "rnd (3 / 4) = Finite (3 / 4)"
  by (rule rnd_pos_eq [where e = "- 1" and m = 6755399441055744]) (simp_all add: pow2_def)

text \<open>
  Claim C3 (as amended).  For every integer transaction rate of magnitude below
  \<open>tx_rate_bound = 20000 * (2^1024 - 2^970)\<close> the quotient \<^verbatim>\<open>tx_rate / 20000\<close> is the
  double nearest to the exact quotient, \<^verbatim>\<open>1 - tx_rate / 20000\<close> is the double nearest to
  the exact difference, and the throughput factor is that float clamped to the interval
  from \<^verbatim>\<open>0.35\<close> to \<^verbatim>\<open>1.0\<close>: \<^verbatim>\<open>0.35\<close> when it is at most \<^verbatim>\<open>0.35\<close>, \<^verbatim>\<open>1.0\<close> when it
  is at least \<^verbatim>\<open>1.0\<close>, and the float itself in between.  So the factor lies between
  \<^verbatim>\<open>0.35\<close> and \<^verbatim>\<open>1.0\<close>, it is \<^verbatim>\<open>1.0\<close> for every rate up to -13000 and \<^verbatim>\<open>0.35\<close> for
  every rate from 13000 on.  From the magnitude \<open>tx_rate_bound\<close> on, the division raises
  \<^verbatim>\<open>OverflowError\<close> and no factor is computed.
\<close>

theorem throughput_factor_clamped:
  "(\<bar>tx_rate\<bar> < tx_rate_bound \<longrightarrow>
      (\<exists>q r f.
          int_truediv tx_rate 20000 = Inr q
        \<and> q = (if tx_rate = 0 then Finite 0 else rnd (of_int tx_rate / 20000))
        \<and> r = fsub (Finite 1) q
        \<and> r = (if fval q = 1 then Finite 0 else rnd (1 - fval q))
        \<and> throughput_factor tx_rate = Inr f
        \<and> f = (if fle r (float_lit (35 / 100)) then float_lit (35 / 100)
                else if fle (float_lit 1) r then float_lit 1 else r)
        \<and> fle (float_lit (35 / 100)) f \<and> fle f (float_lit 1)
        \<and> (fle (float_lit 1) r \<longrightarrow> f = float_lit 1)
        \<and> (tx_rate \<le> - 13000 \<longrightarrow> f = float_lit 1)
        \<and> (13000 \<le> tx_rate \<longrightarrow> f = float_lit (35 / 100))))
   \<and> (tx_rate_bound \<le> \<bar>tx_rate\<bar> \<longrightarrow>
        int_truediv tx_rate 20000 = Inl OverflowError
      \<and> throughput_factor tx_rate = Inl OverflowError)"
proof (intro conjI impI)
  assume range: "\<bar>tx_rate\<bar> < tx_rate_bound"
  obtain q where q: "int_truediv tx_rate 20000 = Inr q" "ordinary q" "\<not> is_inf q"
      "ext q = rq (of_int tx_rate / 20000)"
    using int_truediv_in_range [OF range] by blast
  define r where "r = fsub (Finite 1) q"
  define f where "f = py_min (float_lit 1) (py_max (float_lit (35 / 100)) r)"
  have qv: "q = (if tx_rate = 0 then Finite 0 else rnd (of_int tx_rate / 20000))"
    using q(1) by (auto simp: int_truediv_def Let_def split: if_splits)
  have rv: "r = (if fval q = 1 then Finite 0 else rnd (1 - fval q))"
    unfolding r_def by (rule fsub_one_value [OF q(2,3)])
  have ro: "ordinary r" "ext r = rq (1 - ext q)"
    using fsub_one [OF q(2,3)] by (simp_all add: r_def)
  have tf: "throughput_factor tx_rate = Inr f"
    by (simp add: throughput_factor_def q(1) f_def r_def)
  have cl: "f = (if fle r (float_lit (35 / 100)) then float_lit (35 / 100)
                else if fle (float_lit 1) r then float_lit 1 else r)"
    unfolding f_def by (rule clamp_cases [OF ro(1)])
  have fv: "f = Finite (tfv tx_rate)"
    using throughput_factor_in_range [OF range] tf by simp
  have b: "fle (float_lit (35 / 100)) f" "fle f (float_lit 1)"
    unfolding fv using tfv_bounds [of tx_rate] by (simp_all only: float_consts_fle)
  have one: "fle (float_lit 1) r \<longrightarrow> f = float_lit 1"
    using cl c035_bounds ro(1) flt_ext [OF ordinary_consts(1) ro(1)]
      flt_ext [OF ro(1) ordinary_consts(2)]
    unfolding lit_c035 lit_1 by (auto simp: fle_def)
  have lo: "tx_rate \<le> - 13000 \<longrightarrow> f = float_lit 1"
    unfolding fv using tfv_nonpos [of tx_rate] by (simp add: lit_1)
  have hi: "13000 \<le> tx_rate \<longrightarrow> f = float_lit (35 / 100)"
    unfolding fv lit_c035 using tfv_ge_13000 [of tx_rate] by simp
  show "\<exists>q r f.
          int_truediv tx_rate 20000 = Inr q
        \<and> q = (if tx_rate = 0 then Finite 0 else rnd (of_int tx_rate / 20000))
        \<and> r = fsub (Finite 1) q
        \<and> r = (if fval q = 1 then Finite 0 else rnd (1 - fval q))
        \<and> throughput_factor tx_rate = Inr f
        \<and> f = (if fle r (float_lit (35 / 100)) then float_lit (35 / 100)
                else if fle (float_lit 1) r then float_lit 1 else r)
        \<and> fle (float_lit (35 / 100)) f \<and> fle f (float_lit 1)
        \<and> (fle (float_lit 1) r \<longrightarrow> f = float_lit 1)
        \<and> (tx_rate \<le> - 13000 \<longrightarrow> f = float_lit 1)
        \<and> (13000 \<le> tx_rate \<longrightarrow> f = float_lit (35 / 100))"
    by (rule exI [of _ q], rule exI [of _ r], rule exI [of _ f])
       (intro conjI q(1) qv r_def rv tf cl b one lo hi)
next
  assume "tx_rate_bound \<le> \<bar>tx_rate\<bar>"
  then show "int_truediv tx_rate 20000 = Inl OverflowError" by (rule int_truediv_overflow)
next
  assume "tx_rate_bound \<le> \<bar>tx_rate\<bar>"
  then show "throughput_factor tx_rate = Inl OverflowError" by (rule throughput_factor_overflow)
qed

theorem throughput_factor_clamped_witness:
  "\<bar>- 13000 :: int\<bar> < tx_rate_bound \<and> throughput_factor (- 13000) = Inr (float_lit 1)
   \<and> \<bar>13000 :: int\<bar> < tx_rate_bound \<and> throughput_factor 13000 = Inr (float_lit (35 / 100))
   \<and> \<bar>5000 :: int\<bar> < tx_rate_bound \<and> throughput_factor 5000 = Inr (float_lit (75 / 100))
   \<and> fle (float_lit 1) (fsub (Finite 1) (Finite (- (5854679515581645 / 9007199254740992))))
   \<and> tx_rate_bound \<le> \<bar>tx_rate_bound\<bar> \<and> throughput_factor tx_rate_bound = Inl OverflowError"
proof -
  have a: "\<bar>- 13000 :: int\<bar> < tx_rate_bound" by (rule in_range_small) simp
  have b: "\<bar>13000 :: int\<bar> < tx_rate_bound" by (rule in_range_small) simp
  have c: "\<bar>5000 :: int\<bar> < tx_rate_bound" by (rule in_range_small) simp
  have d: "tx_rate_bound \<le> \<bar>tx_rate_bound\<bar>" by simp
  have ta: "throughput_factor (- 13000) = Inr (float_lit 1)"
    using throughput_factor_clamped [of "- 13000"] a by auto
  have tb: "throughput_factor 13000 = Inr (float_lit (35 / 100))"
    using throughput_factor_clamped [of 13000] b by auto
  have td: "throughput_factor tx_rate_bound = Inl OverflowError"
    using throughput_factor_clamped [of tx_rate_bound] d by blast
  have tc: "throughput_factor 5000 = Inr (float_lit (75 / 100))"
  proof -
    obtain q r f where h: "q = (if (5000 :: int) = 0 then Finite 0 else rnd (of_int 5000 / 20000))"
      "r = (if fval q = 1 then Finite 0 else rnd (1 - fval q))"
      "throughput_factor 5000 = Inr f"
      "f = (if fle r (float_lit (35 / 100)) then float_lit (35 / 100)
            else if fle (float_lit 1) r then float_lit 1 else r)"
      using throughput_factor_clamped [of 5000] c by blast
    have q: "q = Finite (1 / 4)" using h(1) rnd_quarter by simp
    have "(1 :: rat) - 1 / 4 = 3 / 4" by simp
    then have r: "r = Finite (3 / 4)" using h(2) rnd_three_quarters by (simp add: q)
    have "f = Finite (3 / 4)"
      unfolding h(4) r lit_035 lit_1 by (simp add: fle_def)
    then show ?thesis unfolding lit_075 using h(3) by simp
  qed
  have n: "fsub (Finite 1) (Finite (- (5854679515581645 / 9007199254740992)))
      = Finite (3715469692580659 / 2251799813685248)"
    by (rule fsub_eq [where e = 0 and m = 7430939385161318]) (simp_all add: pow2_def)
  have r: "fle (float_lit 1) (fsub (Finite 1) (Finite (- (5854679515581645 / 9007199254740992))))"
    unfolding n by (simp add: lit_1 fle_def)
  from a b c d ta tb tc td r show ?thesis by simp
qed

theorem throughput_factor_overflow_example:
  "13000 \<le> (20000 * 2 ^ 1024 :: int) \<and> throughput_factor (20000 * 2 ^ 1024) = Inl OverflowError"
proof -
  have "tx_rate_bound \<le> \<bar>20000 * 2 ^ 1024 :: int\<bar>" by (simp add: tx_rate_bound_def)
  then have "throughput_factor (20000 * 2 ^ 1024) = Inl OverflowError"
    by (rule throughput_factor_overflow)
  then show ?thesis by simp
qed

text \<open>
  Claim C9 (as amended).  For every record, \<^verbatim>\<open>compute_quality_index\<close> returns a float
  exactly for the integer transaction rates of magnitude below
  \<open>tx_rate_bound = 20000 * (2^1024 - 2^970)\<close>; from that magnitude on,
  \<^verbatim>\<open>tx_rate / 20000\<close> raises \<^verbatim>\<open>OverflowError\<close>.  The result depends on the record and the
  rate only.
\<close>

theorem compute_quality_index_total:
  "(\<bar>tx_rate\<bar> < tx_rate_bound \<longrightarrow> (\<exists>y. compute_quality_index system tx_rate = Inr y))
   \<and> (tx_rate_bound \<le> \<bar>tx_rate\<bar> \<longrightarrow> compute_quality_index system tx_rate = Inl OverflowError)
   \<and> (system' = system \<and> tx_rate' = tx_rate
        \<longrightarrow> compute_quality_index system' tx_rate' = compute_quality_index system tx_rate)"
proof -
  have "\<exists>y. compute_quality_index system tx_rate = Inr y" if "\<bar>tx_rate\<bar> < tx_rate_bound"
    unfolding cqi_unfold throughput_factor_in_range [OF that]
    using py_round_fmul_total [of "score_base system" "Finite (tfv tx_rate)" 4] by simp
  moreover have "compute_quality_index system tx_rate = Inl OverflowError"
    if "tx_rate_bound \<le> \<bar>tx_rate\<bar>"
    unfolding cqi_unfold throughput_factor_overflow [OF that] by simp
  ultimately show ?thesis by blast
qed

theorem compute_quality_index_total_witness:
  "\<bar>0 :: int\<bar> < tx_rate_bound \<and> (\<exists>y. compute_quality_index aztec 0 = Inr y)
   \<and> tx_rate_bound \<le> \<bar>tx_rate_bound\<bar>
   \<and> compute_quality_index aztec tx_rate_bound = Inl OverflowError"
  using compute_quality_index_total [of 0 aztec aztec 0]
    compute_quality_index_total [of tx_rate_bound aztec aztec tx_rate_bound]
  by (simp add: tx_rate_bound_def)

theorem compute_quality_index_overflow_example:
  "compute_quality_index zama (10 ^ 400) = Inl OverflowError"
proof -
  have "tx_rate_bound \<le> \<bar>10 ^ 400 :: int\<bar>" by (simp add: tx_rate_bound_def)
  then have "throughput_factor (10 ^ 400) = Inl OverflowError"
    by (rule throughput_factor_overflow)
  then show ?thesis by (simp add: cqi_unfold)
qed

text \<open>
  Claim C10 (as amended).  For each of the three catalog records the float
  \<^verbatim>\<open>benefit - penalty\<close> (\<open>score_base\<close>) is finite and positive, and for all integer
  transaction rates \<open>t1 \<le> t2\<close> of magnitude below \<open>tx_rate_bound\<close> both calls return a
  float and the quality index at \<open>t1\<close> is at least the one at \<open>t2\<close>.
\<close>

theorem quality_index_non_increasing:
  assumes "(k, system) \<in> set SYSTEMS"
    and "\<bar>t1\<bar> < tx_rate_bound" "\<bar>t2\<bar> < tx_rate_bound" "t1 \<le> t2"
  shows "\<exists>d y1 y2. score_base system = Finite d \<and> 0 < d
           \<and> compute_quality_index system t1 = Inr y1
           \<and> compute_quality_index system t2 = Inr y2 \<and> fle y2 y1"
proof -
  obtain d where d: "score_base system = Finite d" "0 < d" "d \<le> 8"
    using catalog_score_base [OF assms(1)] by blast
  have "compute_quality_index system t1 = Inr (Finite (qv d t1))"
    by (rule cqi_closed [OF d assms(2)])
  moreover have "compute_quality_index system t2 = Inr (Finite (qv d t2))"
    by (rule cqi_closed [OF d assms(3)])
  moreover have "fle (Finite (qv d t2)) (Finite (qv d t1))"
    using qv_antimono [OF d(2) assms(4)] by (simp only: float_consts_fle)
  ultimately show ?thesis using d(1,2) by blast
qed

theorem quality_index_non_increasing_witness:
  "(ascii ''zama'', zama) \<in> set SYSTEMS
   \<and> \<bar>- 5 :: int\<bar> < tx_rate_bound \<and> \<bar>15000 :: int\<bar> < tx_rate_bound \<and> (- 5 :: int) \<le> 15000
   \<and> (\<exists>d y1 y2. score_base zama = Finite d \<and> 0 < d
         \<and> compute_quality_index zama (- 5) = Inr y1
         \<and> compute_quality_index zama 15000 = Inr y2 \<and> fle y2 y1)"
proof -
  have m: "(ascii ''zama'', zama) \<in> set SYSTEMS" by (simp add: SYSTEMS_def)
  have a: "\<bar>- 5 :: int\<bar> < tx_rate_bound" by (rule in_range_small) simp
  have b: "\<bar>15000 :: int\<bar> < tx_rate_bound" by (rule in_range_small) simp
  have c: "(- 5 :: int) \<le> 15000" by simp
  from quality_index_non_increasing [OF m a b c] m a b c show ?thesis by blast
qed

theorem quality_index_overflow_example:
  "(0 :: int) \<le> 20000 * (2 ^ 1024 - 2 ^ 970)
   \<and> compute_quality_index soundness (20000 * (2 ^ 1024 - 2 ^ 970)) = Inl OverflowError"
proof -
  have "tx_rate_bound \<le> \<bar>20000 * (2 ^ 1024 - 2 ^ 970) :: int\<bar>" by (simp add: tx_rate_bound_def)
  then have "throughput_factor (20000 * (2 ^ 1024 - 2 ^ 970)) = Inl OverflowError"
    by (rule throughput_factor_overflow)
  then show ?thesis by (simp add: cqi_unfold)
qed

section \<open>Facts about the text, the summary and the output\<close>

declare str_nat.simps [simp del]

lemma ascii_only_Nil [simp]: "ascii_only []"
  by (simp add: ascii_only_def)

lemma ascii_only_Cons [simp]: "ascii_only (c # s) \<longleftrightarrow> c < 128 \<and> ascii_only s"
  by (simp add: ascii_only_def)

lemma ascii_only_append [simp]: "ascii_only (s @ t) \<longleftrightarrow> ascii_only s \<and> ascii_only t"
  by (auto simp: ascii_only_def)

lemma ascii_only_replicate [simp]: "ascii_only (replicate n c) \<longleftrightarrow> n = 0 \<or> c < 128"
  by (auto simp: ascii_only_def)

lemma ascii_only_concat_map: "(\<And>x. ascii_only (f x)) \<Longrightarrow> ascii_only (concat (map f xs))"
  by (induction xs) simp_all

lemma ascii_only_str_nat: "ascii_only (str_nat n)"
proof (induction n rule: str_nat.induct)
  case (1 n)
  show ?case
  proof (cases "n < 10")
    case True
    then show ?thesis by (subst str_nat.simps) simp
  next
    case False
    have "n mod 10 < 10" by simp
    then have "48 + n mod 10 < 128" by linarith
    with False 1 show ?thesis by (subst str_nat.simps) simp
  qed
qed

lemma ascii_only_str_int: "ascii_only (str_int i)"
  by (simp add: str_int_def ascii_only_str_nat)

lemma hex_digit_ascii: "d < 16 \<Longrightarrow> hex_digit d < 128"
  by (simp add: hex_digit_def)

lemma ascii_only_hex4: "ascii_only (hex4 n)"
  by (simp add: hex4_def hex_digit_ascii)

lemma ascii_only_json_escape_char: "ascii_only (json_escape_char c)"
  by (simp add: json_escape_char_def Let_def ascii_only_hex4)

lemma ascii_only_json_string: "ascii_only (json_string s)"
  by (simp add: json_string_def ascii_only_concat_map ascii_only_json_escape_char)

lemma ascii_only_ascii_lit:
  "ascii_only (ascii ''NaN'')" "ascii_only (ascii ''Infinity'')" "ascii_only (ascii ''-Infinity'')"
  "ascii_only (ascii '': '')" "ascii_only (ascii '', '')" "ascii_only (ascii ''{'')"
  "ascii_only (ascii ''}'')" "ascii_only (ascii ''{}'')"
  by (simp_all add: ascii_def)

lemma of_char_ascii: "\<not> digit7 c \<Longrightarrow> (of_char c :: nat) < 128"
  by (cases c) (simp add: of_char_Char)

lemma ascii_only_lit_text: "ascii_only (lit_text l)"
  using String.explode [of l] by (auto simp: lit_text_def ascii_only_def of_char_ascii)

lemma ascii_only_json_float: "ascii_only (json_float L x)"
  by (cases x) (simp_all add: json_float_def ascii_only_lit_text ascii_only_ascii_lit)

lemma ascii_only_json_value: "ascii_only (json_value L v)"
  by (cases v)
    (simp_all add: json_value_def ascii_only_json_string ascii_only_str_int ascii_only_json_float)

lemma ascii_only_json_item: "ascii_only (json_item L kv)"
  by (simp add: json_item_def ascii_only_json_string ascii_only_json_value ascii_only_ascii_lit)

lemma ascii_only_join:
  "ascii_only sep \<Longrightarrow> \<forall>s \<in> set ss. ascii_only s \<Longrightarrow> ascii_only (join sep ss)"
  by (induction sep ss rule: join.induct) simp_all

lemma ascii_only_join_items:
  assumes "ascii_only sep"
  shows "ascii_only (join sep (map (json_item L) xs))"
  by (rule ascii_only_join [OF assms]) (simp add: ascii_only_json_item)

lemma ascii_only_json_dumps: "ascii_only (json_dumps L indent sort_keys d)"
  unfolding json_dumps_def Let_def
  by (cases indent) (simp_all add: ascii_only_ascii_lit ascii_only_join_items)

lemma utf8_char_ascii: "c < 128 \<Longrightarrow> utf8_char c = Inr [c]"
  by (simp add: utf8_char_def)

lemma str_encode_ascii: "ascii_only s \<Longrightarrow> str_encode s = Inr s"
  by (induction s) (simp_all add: utf8_char_ascii)

lemma compute_hash_ok:
  "compute_hash L d = Inr (lit_text (sha256_hexdigest L (json_dumps L None True d)))"
  by (simp add: compute_hash_def str_encode_ascii [OF ascii_only_json_dumps])

lemma dict_setitem_new: "k \<notin> set (map fst d) \<Longrightarrow> dict_setitem d k v = d @ [(k, v)]"
  by (simp add: dict_setitem_def)

lemma summary_fields_build:
  "dict_setitem (dict_setitem (dict_setitem (asdict s) (ascii ''txRate'') (PInt t))
      (ascii ''qualityIndex'') (PFloat qi)) (ascii ''timestamp'') (PInt now)
   = summary_fields s t qi now"
  by (simp add: dict_setitem_new asdict_def summary_fields_def ascii_def)

lemma summary_fields_hash:
  "dict_setitem (summary_fields s t qi now) (ascii ''hash'') v
   = summary_fields s t qi now @ [(ascii ''hash'', v)]"
  by (rule dict_setitem_new) (simp add: summary_fields_def ascii_def)

lemma build_summary_ok:
  assumes "compute_quality_index system tx_rate = Inr qi"
  shows "build_summary L system tx_rate now =
     Inr (summary_fields system tx_rate qi now
          @ [(ascii ''hash'',
              PStr (lit_text (sha256_hexdigest L
                (json_dumps L None True (summary_fields system tx_rate qi now)))))])"
  unfolding build_summary_def Let_def assms
  by (simp add: summary_fields_build compute_hash_ok summary_fields_hash)

lemma build_summary_error:
  "compute_quality_index system tx_rate = Inl e \<Longrightarrow> build_summary L system tx_rate now = Inl e"
  by (simp add: build_summary_def Let_def)

lemma sort_summary_fields:
  "sort_key fst (summary_fields s t qi now) =
     [(ascii ''description'', PStr (description s)),
      (ascii ''family'', PStr (family s)),
      (ascii ''key'', PStr (key s)),
      (ascii ''name'', PStr (name s)),
      (ascii ''privacy_strength'', PFloat (privacy_strength s)),
      (ascii ''proving_complexity'', PFloat (proving_complexity s)),
      (ascii ''qualityIndex'', PFloat qi),
      (ascii ''soundness_guarantee'', PFloat (soundness_guarantee s)),
      (ascii ''timestamp'', PInt now),
      (ascii ''txRate'', PInt t),
      (ascii ''verification_cost'', PFloat (verification_cost s))]"
  by (simp add: summary_fields_def ascii_def)

lemma sort_summary:
  "sort_key fst (summary_fields s t qi now @ [(ascii ''hash'', h)]) =
     [(ascii ''description'', PStr (description s)),
      (ascii ''family'', PStr (family s)),
      (ascii ''hash'', h),
      (ascii ''key'', PStr (key s)),
      (ascii ''name'', PStr (name s)),
      (ascii ''privacy_strength'', PFloat (privacy_strength s)),
      (ascii ''proving_complexity'', PFloat (proving_complexity s)),
      (ascii ''qualityIndex'', PFloat qi),
      (ascii ''soundness_guarantee'', PFloat (soundness_guarantee s)),
      (ascii ''timestamp'', PInt now),
      (ascii ''txRate'', PInt t),
      (ascii ''verification_cost'', PFloat (verification_cost s))]"
  by (simp add: summary_fields_def ascii_def)

lemma getitem_zama: "SYSTEMS_getitem (ascii ''zama'') = Inr zama"
  by (simp add: SYSTEMS_getitem_def SYSTEMS_def ascii_def)

lemma getitem_soundness: "SYSTEMS_getitem (ascii ''soundness'') = Inr soundness"
  by (simp add: SYSTEMS_getitem_def SYSTEMS_def ascii_def)

text \<open>
  Claim C8.  The catalog has exactly three entries, under the keys \<^verbatim>\<open>aztec\<close>, \<^verbatim>\<open>zama\<close>
  and \<^verbatim>\<open>soundness\<close>, and looking up each of these keys returns a record whose
  \<^verbatim>\<open>key\<close> field is the key looked up.
\<close>

theorem catalog_keys:
  "map fst SYSTEMS = [ascii ''aztec'', ascii ''zama'', ascii ''soundness'']
   \<and> length SYSTEMS = 3 \<and> distinct (map fst SYSTEMS)
   \<and> SYSTEMS_getitem (ascii ''aztec'') = Inr aztec \<and> key aztec = ascii ''aztec''
   \<and> SYSTEMS_getitem (ascii ''zama'') = Inr zama \<and> key zama = ascii ''zama''
   \<and> SYSTEMS_getitem (ascii ''soundness'') = Inr soundness
   \<and> key soundness = ascii ''soundness''"
proof -
  have "map fst SYSTEMS = [ascii ''aztec'', ascii ''zama'', ascii ''soundness'']"
    by (simp add: SYSTEMS_def)
  moreover have "distinct (map fst SYSTEMS)" by (simp add: SYSTEMS_def ascii_def)
  moreover have "length SYSTEMS = 3" by (simp add: SYSTEMS_def)
  moreover have "key aztec = ascii ''aztec''" "key zama = ascii ''zama''"
    "key soundness = ascii ''soundness''"
    by (simp_all add: aztec_def zama_def soundness_def)
  ultimately show ?thesis using getitem_aztec getitem_zama getitem_soundness by simp
qed

lemma getitem_summary:
  "dict_getitem (summary_fields s t qi now @ [(ascii ''hash'', h)]) (ascii ''name'') = Inr (PStr (name s))"
  "dict_getitem (summary_fields s t qi now @ [(ascii ''hash'', h)]) (ascii ''key'') = Inr (PStr (key s))"
  "dict_getitem (summary_fields s t qi now @ [(ascii ''hash'', h)]) (ascii ''family'') = Inr (PStr (family s))"
  "dict_getitem (summary_fields s t qi now @ [(ascii ''hash'', h)]) (ascii ''description'')
     = Inr (PStr (description s))"
  "dict_getitem (summary_fields s t qi now @ [(ascii ''hash'', h)]) (ascii ''txRate'') = Inr (PInt t)"
  "dict_getitem (summary_fields s t qi now @ [(ascii ''hash'', h)]) (ascii ''privacy_strength'')
     = Inr (PFloat (privacy_strength s))"
  "dict_getitem (summary_fields s t qi now @ [(ascii ''hash'', h)]) (ascii ''soundness_guarantee'')
     = Inr (PFloat (soundness_guarantee s))"
  "dict_getitem (summary_fields s t qi now @ [(ascii ''hash'', h)]) (ascii ''proving_complexity'')
     = Inr (PFloat (proving_complexity s))"
  "dict_getitem (summary_fields s t qi now @ [(ascii ''hash'', h)]) (ascii ''verification_cost'')
     = Inr (PFloat (verification_cost s))"
  "dict_getitem (summary_fields s t qi now @ [(ascii ''hash'', h)]) (ascii ''qualityIndex'')
     = Inr (PFloat qi)"
  "dict_getitem (summary_fields s t qi now @ [(ascii ''hash'', h)]) (ascii ''timestamp'') = Inr (PInt now)"
  "dict_getitem (summary_fields s t qi now @ [(ascii ''hash'', h)]) (ascii ''hash'') = Inr h"
  by (simp_all add: dict_getitem_def summary_fields_def ascii_def)

lemma print_human_summary:
  "print_human L (summary_fields s t qi now @ [(ascii ''hash'', PStr h)]) =
     ([[128272] @ ascii '' Cryptographic Architecture Model'',
       ascii ''System: '' @ name s @ ascii '' ('' @ key s @ ascii '')'',
       ascii ''Family: '' @ family s,
       ascii ''Description: '' @ description s,
       [],
       ascii ''Transactions/sec: '' @ str_int t,
       ascii ''Privacy strength: '' @ lit_text (float_repr L (privacy_strength s)),
       ascii ''Soundness guarantee: '' @ lit_text (float_repr L (soundness_guarantee s)),
       ascii ''Proving complexity: '' @ lit_text (float_repr L (proving_complexity s)),
       ascii ''Verification cost:  '' @ lit_text (float_repr L (verification_cost s)),
       [],
       [127937] @ ascii '' Quality Index: '' @ lit_text (float_repr L qi),
       [129516] @ ascii '' Metadata hash: '' @ h], None)"
  unfolding print_human_def labelled_def getitem_summary
  by (simp add: py_str_def)

lemma json_dumps_summary:
  "json_dumps L (Some 2) True (summary_fields s t qi now @ [(ascii ''hash'', PStr h)]) =
     ascii ''{'' @ [10]
     @ ascii ''  \"description\": '' @ json_string (description s) @ [44, 10]
     @ ascii ''  \"family\": '' @ json_string (family s) @ [44, 10]
     @ ascii ''  \"hash\": '' @ json_string h @ [44, 10]
     @ ascii ''  \"key\": '' @ json_string (key s) @ [44, 10]
     @ ascii ''  \"name\": '' @ json_string (name s) @ [44, 10]
     @ ascii ''  \"privacy_strength\": '' @ json_float L (privacy_strength s) @ [44, 10]
     @ ascii ''  \"proving_complexity\": '' @ json_float L (proving_complexity s) @ [44, 10]
     @ ascii ''  \"qualityIndex\": '' @ json_float L qi @ [44, 10]
     @ ascii ''  \"soundness_guarantee\": '' @ json_float L (soundness_guarantee s) @ [44, 10]
     @ ascii ''  \"timestamp\": '' @ str_int now @ [44, 10]
     @ ascii ''  \"txRate\": '' @ str_int t @ [44, 10]
     @ ascii ''  \"verification_cost\": '' @ json_float L (verification_cost s) @ [10]
     @ ascii ''}''"
  unfolding json_dumps_def Let_def sort_summary
  by (simp add: json_item_def json_value_def json_string_def json_escape_char_def ascii_def
      numeral_2_eq_2)

lemma main_unfold:
  assumes "SYSTEMS_getitem k = Inr s" "compute_quality_index s t = Inr qi"
  shows "main L \<lparr>args_tx_rate = t, args_system = k, args_json = j\<rparr> now =
     (let data = summary_fields s t qi now
           @ [(ascii ''hash'', PStr (lit_text (sha256_hexdigest L
                (json_dumps L None True (summary_fields s t qi now)))))]
      in if j then ([json_dumps L (Some 2) True data], None) else print_human L data)"
  by (simp add: main_def assms(1) build_summary_ok [OF assms(2)] Let_def)

lemma summary_keys:
  "map fst (summary_fields s t qi now @ [(ascii ''hash'', h)]) =
     [ascii ''key'', ascii ''name'', ascii ''family'', ascii ''description'',
      ascii ''proving_complexity'', ascii ''verification_cost'', ascii ''privacy_strength'',
      ascii ''soundness_guarantee'', ascii ''txRate'', ascii ''qualityIndex'',
      ascii ''timestamp'', ascii ''hash'']"
  by (simp add: summary_fields_def)

text \<open>
  Claim C6.  In human mode, for a record of the catalog and a transaction rate at which
  the quality index is computed, the program prints exactly thirteen lines in this
  order: the header, \<^verbatim>\<open>System: <name> (<key>)\<close>, \<^verbatim>\<open>Family\<close>, \<^verbatim>\<open>Description\<close>, an empty
  line, \<^verbatim>\<open>Transactions/sec\<close>, \<^verbatim>\<open>Privacy strength\<close>, \<^verbatim>\<open>Soundness guarantee\<close>,
  \<^verbatim>\<open>Proving complexity\<close>, \<^verbatim>\<open>Verification cost\<close>, an empty line, the quality index and
  the metadata hash stored in the summary; and it ends without an exception.
\<close>

theorem main_human_output:
  assumes "SYSTEMS_getitem k = Inr s" and "compute_quality_index s t = Inr qi"
  shows "\<exists>summary h.
       build_summary L s t now = Inr summary
     \<and> dict_getitem summary (ascii ''hash'') = Inr (PStr h)
     \<and> main L \<lparr>args_tx_rate = t, args_system = k, args_json = False\<rparr> now =
         ([[128272] @ ascii '' Cryptographic Architecture Model'',
           ascii ''System: '' @ name s @ ascii '' ('' @ key s @ ascii '')'',
           ascii ''Family: '' @ family s,
           ascii ''Description: '' @ description s,
           [],
           ascii ''Transactions/sec: '' @ str_int t,
           ascii ''Privacy strength: '' @ lit_text (float_repr L (privacy_strength s)),
           ascii ''Soundness guarantee: '' @ lit_text (float_repr L (soundness_guarantee s)),
           ascii ''Proving complexity: '' @ lit_text (float_repr L (proving_complexity s)),
           ascii ''Verification cost:  '' @ lit_text (float_repr L (verification_cost s)),
           [],
           [127937] @ ascii '' Quality Index: '' @ lit_text (float_repr L qi),
           [129516] @ ascii '' Metadata hash: '' @ h], None)"
proof -
  let ?h = "lit_text (sha256_hexdigest L (json_dumps L None True (summary_fields s t qi now)))"
  let ?summary = "summary_fields s t qi now @ [(ascii ''hash'', PStr ?h)]"
  have "build_summary L s t now = Inr ?summary" by (rule build_summary_ok [OF assms(2)])
  moreover have "dict_getitem ?summary (ascii ''hash'') = Inr (PStr ?h)"
    by (rule getitem_summary)
  moreover have "main L \<lparr>args_tx_rate = t, args_system = k, args_json = False\<rparr> now
      = print_human L ?summary"
    by (simp add: main_unfold [OF assms] Let_def)
  ultimately show ?thesis unfolding print_human_summary by blast
qed

text \<open>
  Claim C5.  In JSON mode, for a record of the catalog and a transaction rate at which
  the quality index is computed, the program prints one JSON object: the twelve fields
  of the summary under their names, the keys in lexicographic order, each on a line of
  its own indented by two spaces; and it ends without an exception.
\<close>

theorem main_json_output:
  assumes "SYSTEMS_getitem k = Inr s" and "compute_quality_index s t = Inr qi"
  shows "\<exists>summary h.
       build_summary L s t now = Inr summary
     \<and> map fst summary =
         [ascii ''key'', ascii ''name'', ascii ''family'', ascii ''description'',
          ascii ''proving_complexity'', ascii ''verification_cost'', ascii ''privacy_strength'',
          ascii ''soundness_guarantee'', ascii ''txRate'', ascii ''qualityIndex'',
          ascii ''timestamp'', ascii ''hash'']
     \<and> dict_getitem summary (ascii ''hash'') = Inr (PStr h)
     \<and> main L \<lparr>args_tx_rate = t, args_system = k, args_json = True\<rparr> now =
         ([ascii ''{'' @ [10]
           @ ascii ''  \"description\": '' @ json_string (description s) @ [44, 10]
           @ ascii ''  \"family\": '' @ json_string (family s) @ [44, 10]
           @ ascii ''  \"hash\": '' @ json_string h @ [44, 10]
           @ ascii ''  \"key\": '' @ json_string (key s) @ [44, 10]
           @ ascii ''  \"name\": '' @ json_string (name s) @ [44, 10]
           @ ascii ''  \"privacy_strength\": '' @ json_float L (privacy_strength s) @ [44, 10]
           @ ascii ''  \"proving_complexity\": '' @ json_float L (proving_complexity s) @ [44, 10]
           @ ascii ''  \"qualityIndex\": '' @ json_float L qi @ [44, 10]
           @ ascii ''  \"soundness_guarantee\": '' @ json_float L (soundness_guarantee s) @ [44, 10]
           @ ascii ''  \"timestamp\": '' @ str_int now @ [44, 10]
           @ ascii ''  \"txRate\": '' @ str_int t @ [44, 10]
           @ ascii ''  \"verification_cost\": '' @ json_float L (verification_cost s) @ [10]
           @ ascii ''}''], None)"
proof -
  let ?h = "lit_text (sha256_hexdigest L (json_dumps L None True (summary_fields s t qi now)))"
  let ?summary = "summary_fields s t qi now @ [(ascii ''hash'', PStr ?h)]"
  have a: "build_summary L s t now = Inr ?summary" by (rule build_summary_ok [OF assms(2)])
  have b: "dict_getitem ?summary (ascii ''hash'') = Inr (PStr ?h)"
    by (rule getitem_summary)
  have c: "main L \<lparr>args_tx_rate = t, args_system = k, args_json = True\<rparr> now
      = ([json_dumps L (Some 2) True ?summary], None)"
    by (simp add: main_unfold [OF assms] Let_def)
  show ?thesis
    by (rule exI [of _ ?summary], rule exI [of _ ?h])
       (intro conjI a b summary_keys c [unfolded json_dumps_summary])
qed

lemma filter_same_key:
  assumes "distinct (map f l)" "k \<in> set l"
  shows "filter (\<lambda>x. f k = f x) l = [k]"
  using assms
proof (induction l)
  case Nil
  then show ?case by simp
next
  case (Cons a l)
  show ?case
  proof (cases "a = k")
    case True
    have "filter (\<lambda>x. f k = f x) l = []"
      using Cons.prems(1) True by (auto simp: filter_empty_conv)
    with True show ?thesis by simp
  next
    case False
    with Cons.prems have kl: "k \<in> set l" by auto
    then have "f k \<in> f ` set l" by (rule imageI)
    with Cons.prems(1) have "f k \<noteq> f a" by auto
    with Cons kl show ?thesis by simp
  qed
qed

lemma sort_key_permutation:
  assumes "distinct (map f xs)" "mset ys = mset xs"
  shows "sort_key f ys = sort_key f xs"
proof (rule properties_for_sort_key)
  show "mset (sort_key f xs) = mset ys" using assms(2) by simp
  have "mset (map f ys) = mset (map f xs)" using assms(2) by (metis mset_map)
  then have dy: "distinct (map f ys)" using assms(1) by (metis mset_eq_imp_distinct_iff)
  have ds: "distinct (map f (sort_key f xs))"
    using assms(1) by (metis distinct_map distinct_sort set_sort)
  show "filter (\<lambda>x. f k = f x) (sort_key f xs) = filter (\<lambda>x. f k = f x) ys"
    if "k \<in> set (sort_key f xs)" for k
  proof -
    have "k \<in> set ys" using that assms(2) by (metis mset_eq_setD set_sort)
    then show ?thesis
      using filter_same_key [OF dy] filter_same_key [OF ds that] by simp
  qed
  show "sorted (map f (sort_key f xs))" by simp
qed

lemma summary_fields_distinct: "distinct (map fst (summary_fields s t qi now))"
  by (simp add: summary_fields_def ascii_def)

lemma json_dumps_permutation:
  assumes "mset d = mset (summary_fields s t qi now)"
  shows "json_dumps L None True d = json_dumps L None True (summary_fields s t qi now)"
  by (simp add: json_dumps_def sort_key_permutation [OF summary_fields_distinct assms])

lemma build_summary_Inr:
  assumes "build_summary L system tx_rate now = Inr summary"
  shows "\<exists>qi. compute_quality_index system tx_rate = Inr qi"
  using assms by (cases "compute_quality_index system tx_rate") (simp_all add: build_summary_error)

lemma summary_fields_eq:
  assumes "\<And>k. k \<noteq> ascii ''hash'' \<Longrightarrow>
      dict_getitem (summary_fields s' t' qi' now' @ [(ascii ''hash'', h')]) k
      = dict_getitem (summary_fields s t qi now @ [(ascii ''hash'', h)]) k"
  shows "summary_fields s' t' qi' now' = summary_fields s t qi now"
proof -
  have ne: "ascii ''key'' \<noteq> ascii ''hash''" "ascii ''name'' \<noteq> ascii ''hash''"
    "ascii ''family'' \<noteq> ascii ''hash''" "ascii ''description'' \<noteq> ascii ''hash''"
    "ascii ''proving_complexity'' \<noteq> ascii ''hash''" "ascii ''verification_cost'' \<noteq> ascii ''hash''"
    "ascii ''privacy_strength'' \<noteq> ascii ''hash''" "ascii ''soundness_guarantee'' \<noteq> ascii ''hash''"
    "ascii ''txRate'' \<noteq> ascii ''hash''" "ascii ''qualityIndex'' \<noteq> ascii ''hash''"
    "ascii ''timestamp'' \<noteq> ascii ''hash''"
    by (simp_all add: ascii_def)
  have "key s' = key s" "name s' = name s" "family s' = family s"
    "description s' = description s" "proving_complexity s' = proving_complexity s"
    "verification_cost s' = verification_cost s" "privacy_strength s' = privacy_strength s"
    "soundness_guarantee s' = soundness_guarantee s" "t' = t" "qi' = qi" "now' = now"
    using assms [OF ne(1)] assms [OF ne(2)] assms [OF ne(3)] assms [OF ne(4)] assms [OF ne(5)]
      assms [OF ne(6)] assms [OF ne(7)] assms [OF ne(8)] assms [OF ne(9)] assms [OF ne(10)]
      assms [OF ne(11)]
    unfolding getitem_summary by simp_all
  then show ?thesis by (simp add: summary_fields_def)
qed

text \<open>
  Claim C2.  When the quality index is computed, \<^verbatim>\<open>build_summary\<close> returns the eight
  fields of the record followed by \<^verbatim>\<open>txRate\<close>, \<^verbatim>\<open>qualityIndex\<close> and \<^verbatim>\<open>timestamp\<close>, and
  then \<^verbatim>\<open>hash\<close>: the SHA-256 hex digest of the UTF-8 encoding of the JSON text of those
  eleven fields, the hash itself excluded.  The JSON text lists the keys in
  lexicographic order, so it does not depend on the order in which the fields were
  inserted, and its encoding is the text itself, which is ASCII.  A second call whose
  summary agrees with this one on every field other than \<^verbatim>\<open>hash\<close> stores the same
  digest.
\<close>

theorem build_summary_hash:
  assumes "compute_quality_index system tx_rate = Inr qi"
  shows "\<exists>payload digest.
       payload =
         [(ascii ''key'', PStr (key system)),
          (ascii ''name'', PStr (name system)),
          (ascii ''family'', PStr (family system)),
          (ascii ''description'', PStr (description system)),
          (ascii ''proving_complexity'', PFloat (proving_complexity system)),
          (ascii ''verification_cost'', PFloat (verification_cost system)),
          (ascii ''privacy_strength'', PFloat (privacy_strength system)),
          (ascii ''soundness_guarantee'', PFloat (soundness_guarantee system)),
          (ascii ''txRate'', PInt tx_rate),
          (ascii ''qualityIndex'', PFloat qi),
          (ascii ''timestamp'', PInt now)]
     \<and> build_summary L system tx_rate now = Inr (payload @ [(ascii ''hash'', PStr digest)])
     \<and> str_encode (json_dumps L None True payload) = Inr (json_dumps L None True payload)
     \<and> digest = lit_text (sha256_hexdigest L (json_dumps L None True payload))
     \<and> map fst (sort_key fst payload) =
         [ascii ''description'', ascii ''family'', ascii ''key'', ascii ''name'',
          ascii ''privacy_strength'', ascii ''proving_complexity'', ascii ''qualityIndex'',
          ascii ''soundness_guarantee'', ascii ''timestamp'', ascii ''txRate'',
          ascii ''verification_cost'']
     \<and> json_dumps L None True payload
         = ascii ''{'' @ join (ascii '', '') (map (json_item L) (sort_key fst payload)) @ ascii ''}''
     \<and> (\<forall>d. mset d = mset payload \<longrightarrow> json_dumps L None True d = json_dumps L None True payload)
     \<and> (\<forall>system' tx_rate' now' summary'.
           build_summary L system' tx_rate' now' = Inr summary'
           \<and> (\<forall>k. k \<noteq> ascii ''hash''
                \<longrightarrow> dict_getitem summary' k
                    = dict_getitem (payload @ [(ascii ''hash'', PStr digest)]) k)
           \<longrightarrow> dict_getitem summary' (ascii ''hash'') = Inr (PStr digest))"
proof -
  let ?p = "summary_fields system tx_rate qi now"
  let ?h = "lit_text (sha256_hexdigest L (json_dumps L None True ?p))"
  have p: "?p =
         [(ascii ''key'', PStr (key system)),
          (ascii ''name'', PStr (name system)),
          (ascii ''family'', PStr (family system)),
          (ascii ''description'', PStr (description system)),
          (ascii ''proving_complexity'', PFloat (proving_complexity system)),
          (ascii ''verification_cost'', PFloat (verification_cost system)),
          (ascii ''privacy_strength'', PFloat (privacy_strength system)),
          (ascii ''soundness_guarantee'', PFloat (soundness_guarantee system)),
          (ascii ''txRate'', PInt tx_rate),
          (ascii ''qualityIndex'', PFloat qi),
          (ascii ''timestamp'', PInt now)]"
    by (rule summary_fields_def)
  have b: "build_summary L system tx_rate now = Inr (?p @ [(ascii ''hash'', PStr ?h)])"
    by (rule build_summary_ok [OF assms])
  have e: "str_encode (json_dumps L None True ?p) = Inr (json_dumps L None True ?p)"
    by (rule str_encode_ascii [OF ascii_only_json_dumps])
  have k: "map fst (sort_key fst ?p) =
         [ascii ''description'', ascii ''family'', ascii ''key'', ascii ''name'',
          ascii ''privacy_strength'', ascii ''proving_complexity'', ascii ''qualityIndex'',
          ascii ''soundness_guarantee'', ascii ''timestamp'', ascii ''txRate'',
          ascii ''verification_cost'']"
    unfolding sort_summary_fields by simp
  have ne: "sort_key fst ?p \<noteq> []" unfolding sort_summary_fields by simp
  have j: "json_dumps L None True ?p
         = ascii ''{'' @ join (ascii '', '') (map (json_item L) (sort_key fst ?p)) @ ascii ''}''"
    using ne by (simp add: json_dumps_def)
  have c: "\<forall>d. mset d = mset ?p \<longrightarrow> json_dumps L None True d = json_dumps L None True ?p"
    using json_dumps_permutation by blast
  have d: "dict_getitem summary' (ascii ''hash'') = Inr (PStr ?h)"
    if s': "build_summary L system' tx_rate' now' = Inr summary'"
      and eq: "\<forall>k. k \<noteq> ascii ''hash''
        \<longrightarrow> dict_getitem summary' k = dict_getitem (?p @ [(ascii ''hash'', PStr ?h)]) k"
    for system' tx_rate' now' summary'
  proof -
    obtain qi' where qi': "compute_quality_index system' tx_rate' = Inr qi'"
      using build_summary_Inr [OF s'] by blast
    let ?p' = "summary_fields system' tx_rate' qi' now'"
    let ?h' = "lit_text (sha256_hexdigest L (json_dumps L None True ?p'))"
    have s: "summary' = ?p' @ [(ascii ''hash'', PStr ?h')]"
      using build_summary_ok [OF qi', of L now'] s' by simp
    have "?p' = ?p"
      by (rule summary_fields_eq [of _ _ _ _ "PStr ?h'" _ _ _ _ "PStr ?h"]) (use eq s in simp)
    then show ?thesis unfolding s getitem_summary by simp
  qed
  show ?thesis
    apply (rule exI [of _ ?p], rule exI [of _ ?h])
    apply (intro conjI p b e refl k j c)
    using d by blast
qed

theorem main_human_output_witness:
  "\<forall>L. SYSTEMS_getitem (ascii ''aztec'') = Inr aztec
     \<and> compute_quality_index aztec 0 = Inr (float_lit (6633 / 1000))
     \<and> (\<exists>out. main L \<lparr>args_tx_rate = 0, args_system = ascii ''aztec'', args_json = False\<rparr>
                 1700000000 = (out, None)
          \<and> length out = 13
          \<and> out ! 1 = ascii ''System: Aztec Noir-style ZK System (aztec)''
          \<and> out ! 5 = ascii ''Transactions/sec: 0'')"
proof
  fix L
  obtain summary h where
    "main L \<lparr>args_tx_rate = 0, args_system = ascii ''aztec'', args_json = False\<rparr> 1700000000 =
         ([[128272] @ ascii '' Cryptographic Architecture Model'',
           ascii ''System: '' @ name aztec @ ascii '' ('' @ key aztec @ ascii '')'',
           ascii ''Family: '' @ family aztec,
           ascii ''Description: '' @ description aztec,
           [],
           ascii ''Transactions/sec: '' @ str_int 0,
           ascii ''Privacy strength: '' @ lit_text (float_repr L (privacy_strength aztec)),
           ascii ''Soundness guarantee: '' @ lit_text (float_repr L (soundness_guarantee aztec)),
           ascii ''Proving complexity: '' @ lit_text (float_repr L (proving_complexity aztec)),
           ascii ''Verification cost:  '' @ lit_text (float_repr L (verification_cost aztec)),
           [],
           [127937] @ ascii '' Quality Index: '' @ lit_text (float_repr L (float_lit (6633 / 1000))),
           [129516] @ ascii '' Metadata hash: '' @ h], None)"
    using main_human_output [OF getitem_aztec cqi_aztec_0, where L = L and now = 1700000000] by blast
  then have "\<exists>out. main L \<lparr>args_tx_rate = 0, args_system = ascii ''aztec'', args_json = False\<rparr>
                 1700000000 = (out, None)
          \<and> length out = 13
          \<and> out ! 1 = ascii ''System: Aztec Noir-style ZK System (aztec)''
          \<and> out ! 5 = ascii ''Transactions/sec: 0''"
    by (simp add: aztec_def str_int_0 ascii_def)
  then show "SYSTEMS_getitem (ascii ''aztec'') = Inr aztec
     \<and> compute_quality_index aztec 0 = Inr (float_lit (6633 / 1000))
     \<and> (\<exists>out. main L \<lparr>args_tx_rate = 0, args_system = ascii ''aztec'', args_json = False\<rparr>
                 1700000000 = (out, None)
          \<and> length out = 13
          \<and> out ! 1 = ascii ''System: Aztec Noir-style ZK System (aztec)''
          \<and> out ! 5 = ascii ''Transactions/sec: 0'')"
    using getitem_aztec cqi_aztec_0 by simp
qed

theorem main_json_output_witness:
  "\<forall>L. SYSTEMS_getitem (ascii ''aztec'') = Inr aztec
     \<and> compute_quality_index aztec 0 = Inr (float_lit (6633 / 1000))
     \<and> (\<exists>summary text. build_summary L aztec 0 1700000000 = Inr summary
          \<and> length summary = 12
          \<and> main L \<lparr>args_tx_rate = 0, args_system = ascii ''aztec'', args_json = True\<rparr>
               1700000000 = ([text], None)
          \<and> take 19 text = ascii ''{'' @ [10] @ ascii ''  \"description\": '')"
proof
  fix L
  obtain summary h where s: "build_summary L aztec 0 1700000000 = Inr summary"
    "map fst summary =
         [ascii ''key'', ascii ''name'', ascii ''family'', ascii ''description'',
          ascii ''proving_complexity'', ascii ''verification_cost'', ascii ''privacy_strength'',
          ascii ''soundness_guarantee'', ascii ''txRate'', ascii ''qualityIndex'',
          ascii ''timestamp'', ascii ''hash'']"
    "main L \<lparr>args_tx_rate = 0, args_system = ascii ''aztec'', args_json = True\<rparr> 1700000000 =
         ([ascii ''{'' @ [10]
           @ ascii ''  \"description\": '' @ json_string (description aztec) @ [44, 10]
           @ ascii ''  \"family\": '' @ json_string (family aztec) @ [44, 10]
           @ ascii ''  \"hash\": '' @ json_string h @ [44, 10]
           @ ascii ''  \"key\": '' @ json_string (key aztec) @ [44, 10]
           @ ascii ''  \"name\": '' @ json_string (name aztec) @ [44, 10]
           @ ascii ''  \"privacy_strength\": '' @ json_float L (privacy_strength aztec) @ [44, 10]
           @ ascii ''  \"proving_complexity\": '' @ json_float L (proving_complexity aztec) @ [44, 10]
           @ ascii ''  \"qualityIndex\": '' @ json_float L (float_lit (6633 / 1000)) @ [44, 10]
           @ ascii ''  \"soundness_guarantee\": '' @ json_float L (soundness_guarantee aztec) @ [44, 10]
           @ ascii ''  \"timestamp\": '' @ str_int 1700000000 @ [44, 10]
           @ ascii ''  \"txRate\": '' @ str_int 0 @ [44, 10]
           @ ascii ''  \"verification_cost\": '' @ json_float L (verification_cost aztec) @ [10]
           @ ascii ''}''], None)"
    using main_json_output [OF getitem_aztec cqi_aztec_0, where L = L and now = 1700000000]
    by (elim exE conjE)
  from s(2) have "length (map fst summary) = 12" by simp
  then have l: "length summary = 12" by simp
  have t: "take 19 (ascii ''{'' @ [10] @ ascii ''  \"description\": '' @ rest)
      = ascii ''{'' @ [10] @ ascii ''  \"description\": ''" for rest
    by (simp add: ascii_def)
  have "\<exists>text. main L \<lparr>args_tx_rate = 0, args_system = ascii ''aztec'', args_json = True\<rparr>
               1700000000 = ([text], None)
          \<and> take 19 text = ascii ''{'' @ [10] @ ascii ''  \"description\": ''"
    unfolding s(3) by (rule exI, rule conjI, rule refl, rule t)
  then show "SYSTEMS_getitem (ascii ''aztec'') = Inr aztec
     \<and> compute_quality_index aztec 0 = Inr (float_lit (6633 / 1000))
     \<and> (\<exists>summary text. build_summary L aztec 0 1700000000 = Inr summary
          \<and> length summary = 12
          \<and> main L \<lparr>args_tx_rate = 0, args_system = ascii ''aztec'', args_json = True\<rparr>
               1700000000 = ([text], None)
          \<and> take 19 text = ascii ''{'' @ [10] @ ascii ''  \"description\": '')"
    using getitem_aztec cqi_aztec_0 s(1) l by blast
qed

theorem build_summary_hash_witness:
  "\<forall>L. compute_quality_index aztec 0 = Inr (float_lit (6633 / 1000))
     \<and> (\<exists>payload digest.
          build_summary L aztec 0 1700000000 = Inr (payload @ [(ascii ''hash'', PStr digest)])
          \<and> length payload = 11
          \<and> digest = lit_text (sha256_hexdigest L (json_dumps L None True payload))
          \<and> mset (rev payload) = mset payload
          \<and> json_dumps L None True (rev payload) = json_dumps L None True payload
          \<and> dict_getitem (payload @ [(ascii ''hash'', PStr digest)]) (ascii ''hash'')
              = Inr (PStr digest))"
proof
  fix L
  obtain payload digest where p:
    "payload =
         [(ascii ''key'', PStr (key aztec)),
          (ascii ''name'', PStr (name aztec)),
          (ascii ''family'', PStr (family aztec)),
          (ascii ''description'', PStr (description aztec)),
          (ascii ''proving_complexity'', PFloat (proving_complexity aztec)),
          (ascii ''verification_cost'', PFloat (verification_cost aztec)),
          (ascii ''privacy_strength'', PFloat (privacy_strength aztec)),
          (ascii ''soundness_guarantee'', PFloat (soundness_guarantee aztec)),
          (ascii ''txRate'', PInt 0),
          (ascii ''qualityIndex'', PFloat (float_lit (6633 / 1000))),
          (ascii ''timestamp'', PInt 1700000000)]"
    "build_summary L aztec 0 1700000000 = Inr (payload @ [(ascii ''hash'', PStr digest)])"
    "digest = lit_text (sha256_hexdigest L (json_dumps L None True payload))"
    "\<forall>d. mset d = mset payload \<longrightarrow> json_dumps L None True d = json_dumps L None True payload"
    "\<forall>system' tx_rate' now' summary'.
           build_summary L system' tx_rate' now' = Inr summary'
           \<and> (\<forall>k. k \<noteq> ascii ''hash''
                \<longrightarrow> dict_getitem summary' k
                    = dict_getitem (payload @ [(ascii ''hash'', PStr digest)]) k)
           \<longrightarrow> dict_getitem summary' (ascii ''hash'') = Inr (PStr digest)"
    using build_summary_hash [OF cqi_aztec_0, where L = L and now = 1700000000] by blast
  have l: "length payload = 11" unfolding p(1) by simp
  have m: "mset (rev payload) = mset payload" by simp
  then have j: "json_dumps L None True (rev payload) = json_dumps L None True payload"
    using p(4) by blast
  have g: "dict_getitem (payload @ [(ascii ''hash'', PStr digest)]) (ascii ''hash'')
      = Inr (PStr digest)"
    using p(5) p(2) by blast
  show "compute_quality_index aztec 0 = Inr (float_lit (6633 / 1000))
     \<and> (\<exists>payload digest.
          build_summary L aztec 0 1700000000 = Inr (payload @ [(ascii ''hash'', PStr digest)])
          \<and> length payload = 11
          \<and> digest = lit_text (sha256_hexdigest L (json_dumps L None True payload))
          \<and> mset (rev payload) = mset payload
          \<and> json_dumps L None True (rev payload) = json_dumps L None True payload
          \<and> dict_getitem (payload @ [(ascii ''hash'', PStr digest)]) (ascii ''hash'')
              = Inr (PStr digest))"
    using cqi_aztec_0 p(2,3) l m j g by blast
qed

end
